theory Spec2Isabelle
  imports Complex_Main "HOL-Library.Word"
begin

unbundle bit_operations_syntax

section \<open>JavaScript primitives used by the analyser\<close>

subsection \<open>Numbers\<close>

text \<open>
  A JavaScript number is an IEEE-754 double. Every finite double is a rational, so numbers
  are modelled as \<open>rat\<close>. Comparison, \<open>Math.round\<close> and the product of small integers
  are exact on doubles; a product or quotient that is not exact is rounded to a neighbouring
  double. That rounding is the parameter \<open>fl\<close> of every function below that performs such
  an operation. Round-to-nearest on doubles keeps \<open>\<bar>fl x - x\<bar>\<close> below
  \<open>\<bar>x\<bar> / 2 ^ 53 + 1 / 2 ^ 1075\<close> on the finite range, which is far inside the
  bound \<open>ieee_like\<close> asks for; exact arithmetic (\<open>fl = id\<close>) satisfies it as well.
\<close>

type_synonym number = rat

definition ieee_like :: "(number \<Rightarrow> number) \<Rightarrow> bool" where
  "ieee_like fl \<longleftrightarrow> (\<forall>x. \<bar>fl x - x\<bar> \<le> (\<bar>x\<bar> + 1) / 2 ^ 32)"

text \<open>\<open>Math.round(x)\<close>: the nearest integer, a tie going up.\<close>

definition Math_round :: "number \<Rightarrow> int" where
  "Math_round x = \<lfloor>x + 1 / 2\<rfloor>"

subsection \<open>Characters and strings\<close>

text \<open>
  Strings are lists of 8-bit characters, so the model covers the Latin-1 range of
  JavaScript's UTF-16 strings. The character classes are those of a regular expression
  without the \<open>u\<close> flag: \<open>\d\<close>, \<open>\w\<close> and \<open>\s\<close>; with the \<open>i\<close> flag a letter of the
  pattern matches exactly its two ASCII cases.
\<close>

definition char_code :: "char \<Rightarrow> nat" where
  "char_code c = of_char c"

definition is_digit :: "char \<Rightarrow> bool" where
  "is_digit c \<longleftrightarrow> 48 \<le> char_code c \<and> char_code c \<le> 57"

definition is_upper :: "char \<Rightarrow> bool" where
  "is_upper c \<longleftrightarrow> 65 \<le> char_code c \<and> char_code c \<le> 90"

definition is_lower :: "char \<Rightarrow> bool" where
  "is_lower c \<longleftrightarrow> 97 \<le> char_code c \<and> char_code c \<le> 122"

definition is_alnum :: "char \<Rightarrow> bool" where
  "is_alnum c \<longleftrightarrow> is_lower c \<or> is_upper c \<or> is_digit c"

text \<open>\<open>\w\<close> is \<open>[A-Za-z0-9_]\<close>.\<close>

definition is_word_char :: "char \<Rightarrow> bool" where
  "is_word_char c \<longleftrightarrow> is_alnum c \<or> c = CHR ''_''"

text \<open>\<open>\s\<close> within Latin-1: tab, line feed, vertical tab, form feed, carriage return,
  space and the no-break space.\<close>

definition is_space :: "char \<Rightarrow> bool" where
  "is_space c \<longleftrightarrow> (9 \<le> char_code c \<and> char_code c \<le> 13) \<or> char_code c = 32 \<or> char_code c = 160"

text \<open>\<open>toUpperCase\<close> and \<open>toLowerCase\<close>, character by character. The upper-casing is
  only ever applied to ASCII text (hex digits, \<open>#\<close>, \<open>-\<close>, sanitised identifiers); the
  lower-casing also maps the capital letters of Latin-1.\<close>

definition toUpperCase_char :: "char \<Rightarrow> char" where
  "toUpperCase_char c = (if is_lower c then char_of (char_code c - 32) else c)"

definition toLowerCase_char :: "char \<Rightarrow> char" where
  "toLowerCase_char c =
     (if is_upper c \<or> (192 \<le> char_code c \<and> char_code c \<le> 222 \<and> char_code c \<noteq> 215)
      then char_of (char_code c + 32) else c)"

definition toUpperCase :: "string \<Rightarrow> string" where
  "toUpperCase s = map toUpperCase_char s"

definition toLowerCase :: "string \<Rightarrow> string" where
  "toLowerCase s = map toLowerCase_char s"

text \<open>\<open>s.padStart(n, c)\<close> for a one-character pad.\<close>

definition padStart :: "nat \<Rightarrow> char \<Rightarrow> string \<Rightarrow> string" where
  "padStart n c s = replicate (n - length s) c @ s"

text \<open>\<open>Number.prototype.toString(16)\<close> on an integer: lower-case digits, most significant
  first, a minus sign for a negative value.\<close>

definition hex_char :: "nat \<Rightarrow> char" where
  "hex_char d = ''0123456789abcdef'' ! d"

fun digits16 :: "nat \<Rightarrow> string" where
  "digits16 n = (if n < 16 then [hex_char n] else digits16 (n div 16) @ [hex_char (n mod 16)])"

declare digits16.simps [simp del]

definition toString16 :: "int \<Rightarrow> string" where
  "toString16 i = (if i < 0 then CHR ''-'' # digits16 (nat (- i)) else digits16 (nat i))"

text \<open>\<open>parseInt(s, 16)\<close> on a string of hex digits (the only strings it is applied to are
  the groups captured by \<open>[a-f\d]{2}\<close>).\<close>

definition hex_digit_val :: "char \<Rightarrow> nat" where
  "hex_digit_val c =
     (if is_digit c then char_code c - 48
      else if 97 \<le> char_code c \<and> char_code c \<le> 102 then char_code c - 87
      else if 65 \<le> char_code c \<and> char_code c \<le> 70 then char_code c - 55
      else 0)"

definition parseInt16 :: "string \<Rightarrow> nat" where
  "parseInt16 s = foldl (\<lambda>acc c. 16 * acc + hex_digit_val c) 0 s"

section \<open>Colour codec\<close>

text \<open>The class \<open>[a-f\d]\<close> under the \<open>i\<close> flag.\<close>

definition is_hex_digit :: "char \<Rightarrow> bool" where
  "is_hex_digit c \<longleftrightarrow>
     is_digit c \<or> (97 \<le> char_code c \<and> char_code c \<le> 102) \<or> (65 \<le> char_code c \<and> char_code c \<le> 70)"

text \<open>
  \<open>/^#?([a-f\d]{2})([a-f\d]{2})([a-f\d]{2})$/i.exec(hex)\<close>: the three captured groups, or
  \<open>None\<close> for JavaScript's \<open>null\<close>. \<open>hex_groups\<close> is the anchored part after the optional
  \<open>#\<close>; a leading \<open>#\<close> is consumed when there is one (it is not a hex digit, so leaving it
  to the first group can never match).
\<close>

definition hex_groups :: "string \<Rightarrow> (string \<times> string \<times> string) option" where
  "hex_groups s =
     (if length s = 6 \<and> list_all is_hex_digit s
      then Some (take 2 s, take 2 (drop 2 s), drop 4 s) else None)"

fun hex_regex_exec :: "string \<Rightarrow> (string \<times> string \<times> string) option" where
  "hex_regex_exec [] = hex_groups []"
| "hex_regex_exec (c # cs) = (if c = CHR ''#'' then hex_groups cs else hex_groups (c # cs))"

text \<open>
  \<open>rgbToHex(r, g, b)\<close>. The inner helper \<open>toHex\<close> scales a channel by 255 (an inexact
  product), rounds, prints in base 16 and pads a single digit with \<open>0\<close>.
\<close>

definition toHex :: "(number \<Rightarrow> number) \<Rightarrow> number \<Rightarrow> string" where
  "toHex fl c =
     (let hex = toString16 (Math_round (fl (c * 255)))
      in if length hex = 1 then CHR ''0'' # hex else hex)"

definition rgbToHex :: "(number \<Rightarrow> number) \<Rightarrow> number \<Rightarrow> number \<Rightarrow> number \<Rightarrow> string" where
  "rgbToHex fl r g b = toUpperCase (CHR ''#'' # toHex fl r @ toHex fl g @ toHex fl b)"

text \<open>\<open>hexToRgb(hex)\<close>: the three channels as fractions of 255, black when the pattern
  does not match.\<close>

definition hexToRgb :: "(number \<Rightarrow> number) \<Rightarrow> string \<Rightarrow> number \<times> number \<times> number" where
  "hexToRgb fl hex =
     (case hex_regex_exec hex of
        Some (g1, g2, g3) \<Rightarrow>
          (fl (of_nat (parseInt16 g1) / 255),
           fl (of_nat (parseInt16 g2) / 255),
           fl (of_nat (parseInt16 g3) / 255))
      | None \<Rightarrow> (0, 0, 0))"

text \<open>
  \<open>hexToRgb565(hex)\<close>. The products \<open>r8 * 31\<close> and \<open>g8 * 63\<close> are exact, the division
  by 255 is not. The shifts and the bitwise or work on 32-bit integers.
\<close>

definition hexToRgb565 :: "(number \<Rightarrow> number) \<Rightarrow> string \<Rightarrow> string" where
  "hexToRgb565 fl hex =
     (case hex_regex_exec hex of
        None \<Rightarrow> ''0x0000''
      | Some (g1, g2, g3) \<Rightarrow>
          (let r8 = parseInt16 g1;
               g8 = parseInt16 g2;
               b8 = parseInt16 g3;
               r5 = Math_round (fl (of_nat (r8 * 31) / 255));
               g6 = Math_round (fl (of_nat (g8 * 63) / 255));
               b5 = Math_round (fl (of_nat (b8 * 31) / 255));
               rgb565 = sint (push_bit 11 (word_of_int r5 :: 32 word)
                              OR push_bit 5 (word_of_int g6) OR word_of_int b5)
           in ''0x'' @ padStart 4 (CHR ''0'') (toUpperCase (toString16 rgb565))))"

subsection \<open>The codec as the specification words it\<close>

text \<open>
  The specification's side of the codec claims: the two readings of the input pattern, the
  8-bit channels of a digit string, the RGB565 packing over unbounded integers with exact
  rounding, and fixed-width upper-case hexadecimal.
\<close>

definition six_hex_digits :: "string \<Rightarrow> bool" where
  "six_hex_digits ds \<longleftrightarrow> length ds = 6 \<and> list_all is_hex_digit ds"

text \<open>The pattern \<open>#RRGGBB\<close> read strictly: a \<open>#\<close>, then six hex digits.\<close>

definition rrggbb_strict :: "string \<Rightarrow> bool" where
  "rrggbb_strict s \<longleftrightarrow> (case s of [] \<Rightarrow> False | c # cs \<Rightarrow> c = CHR ''#'' \<and> six_hex_digits cs)"

text \<open>Six hex digits, optionally preceded by \<open>#\<close>.\<close>

definition strip_hash :: "string \<Rightarrow> string" where
  "strip_hash s = (case s of [] \<Rightarrow> [] | c # cs \<Rightarrow> if c = CHR ''#'' then cs else s)"

definition rrggbb_opt_hash :: "string \<Rightarrow> bool" where
  "rrggbb_opt_hash s \<longleftrightarrow> six_hex_digits (strip_hash s)"

text \<open>Channel \<open>k\<close> (0 for red, 1 for green, 2 for blue) of a string of six digits.\<close>

definition channel :: "nat \<Rightarrow> string \<Rightarrow> nat" where
  "channel k ds = parseInt16 (take 2 (drop (2 * k) ds))"

definition rgb565_spec :: "nat \<Rightarrow> nat \<Rightarrow> nat \<Rightarrow> int" where
  "rgb565_spec R G B =
     push_bit 11 (round (of_nat R * 31 / 255 :: rat))
     OR push_bit 5 (round (of_nat G * 63 / 255 :: rat))
     OR round (of_nat B * 31 / 255 :: rat)"

definition HEX_char :: "nat \<Rightarrow> char" where
  "HEX_char d = ''0123456789ABCDEF'' ! d"

definition hex4_upper :: "int \<Rightarrow> string" where
  "hex4_upper v = map (\<lambda>k. HEX_char (nat (v div 16 ^ k mod 16))) [3, 2, 1, 0]"

definition hex2_upper :: "int \<Rightarrow> string" where
  "hex2_upper v = map (\<lambda>k. HEX_char (nat (v div 16 ^ k mod 16))) [1, 0]"

definition is_HEX_digit :: "char \<Rightarrow> bool" where
  "is_HEX_digit c \<longleftrightarrow> is_digit c \<or> (65 \<le> char_code c \<and> char_code c \<le> 70)"

section \<open>Icon classification\<close>

subsection \<open>The two regular expressions\<close>

text \<open>
  \<open>iconNameRegex = /(^|\b|[_\-\s])(ic|icon)([_\-\s]|\b|$)/i\<close>, used through \<open>test\<close>, which
  searches for a match starting at any position. The matcher below follows the pattern
  group by group. A position in the subject is the character before it (\<open>None\<close> at the
  start) and the rest of the subject from it.
\<close>

text \<open>The class \<open>[_\-\s]\<close>.\<close>

definition is_sep :: "char \<Rightarrow> bool" where
  "is_sep c \<longleftrightarrow> c = CHR ''_'' \<or> c = CHR ''-'' \<or> is_space c"

text \<open>\<open>\b\<close>: exactly one of the two neighbours is a word character; a missing neighbour
  counts as a non-word character.\<close>

definition is_word_opt :: "char option \<Rightarrow> bool" where
  "is_word_opt p = (case p of None \<Rightarrow> False | Some c \<Rightarrow> is_word_char c)"

definition word_boundary :: "char option \<Rightarrow> string \<Rightarrow> bool" where
  "word_boundary p s \<longleftrightarrow>
     is_word_opt p \<noteq> is_word_opt (case s of [] \<Rightarrow> None | c # _ \<Rightarrow> Some c)"

text \<open>A lower-case pattern letter under the \<open>i\<close> flag matches itself and its capital.\<close>

definition ci_eq :: "char \<Rightarrow> char \<Rightarrow> bool" where
  "ci_eq l c \<longleftrightarrow> c = l \<or> c = toUpperCase_char l"

text \<open>A literal at the head of the subject: the last character matched and the rest.\<close>

fun match_lit :: "string \<Rightarrow> char option \<Rightarrow> string \<Rightarrow> (char option \<times> string) option" where
  "match_lit [] p s = Some (p, s)"
| "match_lit (l # ls) p [] = None"
| "match_lit (l # ls) p (c # cs) = (if ci_eq l c then match_lit ls (Some c) cs else None)"

text \<open>The last group \<open>([_\-\s]|\b|$)\<close>; as nothing follows it, consuming the separator or
  not makes no difference to \<open>test\<close>.\<close>

definition right_ctx :: "char option \<Rightarrow> string \<Rightarrow> bool" where
  "right_ctx p s \<longleftrightarrow> (case s of [] \<Rightarrow> False | c # _ \<Rightarrow> is_sep c) \<or> word_boundary p s \<or> s = []"

text \<open>The middle group \<open>(ic|icon)\<close> followed by the last group, with backtracking from
  the first alternative to the second.\<close>

definition token_then_right :: "char option \<Rightarrow> string \<Rightarrow> bool" where
  "token_then_right p s \<longleftrightarrow>
     (case match_lit ''ic'' p s of Some (q, rest) \<Rightarrow> right_ctx q rest | None \<Rightarrow> False)
     \<or> (case match_lit ''icon'' p s of Some (q, rest) \<Rightarrow> right_ctx q rest | None \<Rightarrow> False)"

text \<open>The whole pattern tried at one position: \<open>^\<close>, or \<open>\b\<close>, or a consumed separator.\<close>

definition icon_match_at :: "char option \<Rightarrow> string \<Rightarrow> bool" where
  "icon_match_at p s \<longleftrightarrow>
     (p = None \<and> token_then_right p s)
     \<or> (word_boundary p s \<and> token_then_right p s)
     \<or> (case s of [] \<Rightarrow> False | c # cs \<Rightarrow> is_sep c \<and> token_then_right (Some c) cs)"

fun icon_search :: "char option \<Rightarrow> string \<Rightarrow> bool" where
  "icon_search p [] = icon_match_at p []"
| "icon_search p (c # cs) = (icon_match_at p (c # cs) \<or> icon_search (Some c) cs)"

definition iconNameRegex_test :: "string \<Rightarrow> bool" where
  "iconNameRegex_test s = icon_search None s"

text \<open>\<open>/icon/i.test(s)\<close>: the literal anywhere in the subject.\<close>

fun icon_substring_test :: "string \<Rightarrow> bool" where
  "icon_substring_test [] = False"
| "icon_substring_test (c # cs) =
     (match_lit ''icon'' None (c # cs) \<noteq> None \<or> icon_substring_test cs)"

text \<open>\<open>String.prototype.trim\<close>: white space removed at both ends.\<close>

definition trim :: "string \<Rightarrow> string" where
  "trim s = rev (dropWhile is_space (rev (dropWhile is_space s)))"

subsection \<open>The primary classifier\<close>

text \<open>
  What \<open>isComponentAnIcon\<close> reads of a component node: its name, its parent (type and
  name), its size, and its variant properties, whose getter can throw, return \<open>null\<close> or
  return an object of string properties (in enumeration order).
\<close>

record parent_node =
  pn_type :: string
  pn_name :: string

datatype vp_access = VpThrows | VpNull | VpProps "(string \<times> string) list"

record main_component =
  mc_name :: string
  mc_key :: string
  mc_id :: string
  mc_parent :: "parent_node option"
  mc_variantProperties :: vp_access
  mc_width :: number
  mc_height :: number

text \<open>The \<open>for (const k in vp)\<close> loop with its \<open>break\<close>.\<close>

fun vp_loop :: "(string \<times> string) list \<Rightarrow> bool" where
  "vp_loop [] = False"
| "vp_loop ((k, v) # kvs) =
     (if icon_substring_test k \<or> icon_substring_test v then True else vp_loop kvs)"

text \<open>The inner \<open>try\<close>: a throwing getter leaves \<open>looksLikeIconByVariant\<close> at \<open>false\<close>.\<close>

definition looksLikeIconByVariant :: "main_component \<Rightarrow> bool" where
  "looksLikeIconByVariant mc =
     (case mc_variantProperties mc of
        VpThrows \<Rightarrow> False
      | VpNull \<Rightarrow> False
      | VpProps kvs \<Rightarrow> vp_loop kvs)"

text \<open>
  \<open>isComponentAnIcon(mainComponent)\<close>. The argument is \<open>None\<close> for a \<open>null\<close> component, the
  one case that reaches the outer \<open>catch\<close>. The size hint \<open>looksIconBySize\<close> is computed
  and not used, as in the source.
\<close>

definition isComponentAnIcon :: "main_component option \<Rightarrow> bool" where
  "isComponentAnIcon m =
     (case m of
        None \<Rightarrow> False
      | Some mc \<Rightarrow>
          (let compName = trim (mc_name mc);
               setName = (case mc_parent mc of
                            Some p \<Rightarrow> if pn_type p = ''COMPONENT_SET'' then pn_name p else []
                          | None \<Rightarrow> []);
               looksLikeIconByName = (iconNameRegex_test compName \<or> iconNameRegex_test setName);
               looksLikeIconByVariant = looksLikeIconByVariant mc;
               w = Math_round (mc_width mc);
               h = Math_round (mc_height mc);
               looksIconBySize = (w > 0 \<and> h > 0 \<and> max w h \<le> 128)
           in if looksLikeIconByName \<or> looksLikeIconByVariant then True else False))"

subsection \<open>The classifier as the specification words it\<close>

text \<open>
  A token \<open>ic\<close> or \<open>icon\<close>, in any case, occurring between \<open>pre\<close> and \<open>post\<close>, with a
  given test for what may stand just before and just after it.
\<close>

definition is_icon_token :: "string \<Rightarrow> bool" where
  "is_icon_token t \<longleftrightarrow> list_all2 ci_eq ''ic'' t \<or> list_all2 ci_eq ''icon'' t"

definition bounded_token :: "(char \<Rightarrow> bool) \<Rightarrow> string \<Rightarrow> bool" where
  "bounded_token bound s \<longleftrightarrow>
     (\<exists>pre t post. s = pre @ t @ post \<and> is_icon_token t
        \<and> (pre = [] \<or> bound (last pre)) \<and> (post = [] \<or> bound (hd post)))"

text \<open>The same test as a search, for evaluation: every split of the subject.\<close>

fun splits :: "string \<Rightarrow> (string \<times> string) list" where
  "splits [] = [([], [])]"
| "splits (c # cs) = ([], c # cs) # map (\<lambda>(a, b). (c # a, b)) (splits cs)"

definition bounded_token_search :: "(char \<Rightarrow> bool) \<Rightarrow> string \<Rightarrow> bool" where
  "bounded_token_search bound s \<longleftrightarrow>
     list_ex (\<lambda>(pre, rest).
        (pre = [] \<or> bound (last pre))
        \<and> list_ex (\<lambda>t. is_icon_token t
              \<and> take (length t) rest = t
              \<and> (drop (length t) rest = [] \<or> bound (hd (drop (length t) rest))))
             [take 2 rest, take 4 rest])
       (splits s)"

text \<open>The boundaries the specification lists: underscore, hyphen or white space (and the
  two ends of the string).\<close>

definition listed_boundary :: "char \<Rightarrow> bool" where
  "listed_boundary c \<longleftrightarrow> c = CHR ''_'' \<or> c = CHR ''-'' \<or> is_space c"

text \<open>The boundaries of the code: any character that is not an ASCII letter or digit.\<close>

definition non_alnum :: "char \<Rightarrow> bool" where
  "non_alnum c \<longleftrightarrow> \<not> is_alnum c"

text \<open>The name of the variant set, empty when the parent is not a component set.\<close>

definition set_name_of :: "main_component \<Rightarrow> string" where
  "set_name_of mc =
     (case mc_parent mc of
        Some p \<Rightarrow> if pn_type p = ''COMPONENT_SET'' then pn_name p else []
      | None \<Rightarrow> [])"

text \<open>Some readable variant property key or value contains \<open>icon\<close>, in any case.\<close>

definition contains_icon :: "string \<Rightarrow> bool" where
  "contains_icon s \<longleftrightarrow> (\<exists>pre t post. s = pre @ t @ post \<and> list_all2 ci_eq ''icon'' t)"

definition variant_mentions_icon :: "main_component \<Rightarrow> bool" where
  "variant_mentions_icon mc \<longleftrightarrow>
     (case mc_variantProperties mc of
        VpProps kvs \<Rightarrow> (\<exists>(k, v) \<in> set kvs. contains_icon k \<or> contains_icon v)
      | _ \<Rightarrow> False)"

text \<open>A token stands at the head of \<open>s\<close>, followed by the end or by a character that is
  not an ASCII letter or digit.\<close>

definition token_here :: "string \<Rightarrow> bool" where
  "token_here s \<longleftrightarrow>
     (\<exists>t post. s = t @ post \<and> is_icon_token t \<and> (post = [] \<or> non_alnum (hd post)))"

text \<open>A component with a given name, no parent, no variant properties, 24 by 24.\<close>

definition plain_component :: "string \<Rightarrow> main_component" where
  "plain_component n =
     \<lparr>mc_name = n, mc_key = ''key'', mc_id = ''1:1'', mc_parent = None,
      mc_variantProperties = VpNull, mc_width = 24, mc_height = 24\<rparr>"

section \<open>Analysis records\<close>

text \<open>
  The objects the extractor stores and the aggregator and the exporter read. A property
  that may hold \<open>null\<close> is an \<open>option\<close>. \<open>cr_name\<close> and \<open>cr_setName\<close> are properties the
  reclassification reads although the extractor never writes them: \<open>None\<close> is JavaScript's
  \<open>undefined\<close>.
\<close>

record comp_ref =
  cr_masterName :: string
  cr_variantName :: "string option"
  cr_fullName :: string
  cr_key :: string
  cr_id :: string
  cr_isVariant :: bool
  cr_instanceCount :: nat
  cr_isIcon :: bool
  cr_name :: "string option"
  cr_setName :: "string option"

text \<open>A font size is a number, or one of the strings \<open>Unknown\<close> and \<open>Mixed\<close>.\<close>

datatype font_size = Px number | Unknown | Mixed

datatype paint_origin = Fill | Stroke

record font_usage =
  fu_fontKey :: string
  fu_fontFamily :: string
  fu_fontStyle :: string
  fu_fontSize :: font_size
  fu_styleName :: "string option"
  fu_displayString :: string
  fu_hasStyle :: bool

record color_usage =
  cu_hex :: string
  cu_rgb565 :: string
  cu_opacity :: number
  cu_displayHex :: string
  cu_styleName :: "string option"
  cu_type :: paint_origin

record text_style =
  ts_styleName :: string
  ts_fontFamily :: string
  ts_fontStyle :: string
  ts_fontSize :: font_size

record frame_info =
  fr_name :: string
  fr_width :: number
  fr_height :: number
  fr_elementCount :: nat

record analysis =
  a_components :: "comp_ref list"
  a_icons :: "comp_ref list"
  a_fonts :: "font_usage list"
  a_colors :: "color_usage list"
  a_colorStyles :: "string list"
  a_textStyles :: "text_style list"
  a_effectStyles :: "string list"
  a_frameInfo :: frame_info

text \<open>
  Truthiness of a string-valued property: \<open>null\<close>, \<open>undefined\<close> and the empty string are
  falsy. \<open>a || b\<close> on such values is \<open>js_or\<close>.
\<close>

definition truthy :: "string option \<Rightarrow> bool" where
  "truthy v \<longleftrightarrow> (case v of None \<Rightarrow> False | Some s \<Rightarrow> s \<noteq> [])"

definition js_or :: "string \<Rightarrow> string \<Rightarrow> string" where
  "js_or a b = (if a \<noteq> [] then a else b)"

definition opt_str :: "string option \<Rightarrow> string" where
  "opt_str v = (case v of None \<Rightarrow> [] | Some s \<Rightarrow> s)"

text \<open>A JavaScript \<open>Map\<close> with string keys, in insertion order; \<open>set\<close> on a key that is
  present replaces the value in place.\<close>

type_synonym ('k, 'v) jsmap = "('k \<times> 'v) list"

definition map_has :: "('k, 'v) jsmap \<Rightarrow> 'k \<Rightarrow> bool" where
  "map_has m k \<longleftrightarrow> k \<in> fst ` set m"

definition map_get :: "('k, 'v) jsmap \<Rightarrow> 'k \<Rightarrow> 'v option" where
  "map_get m k = map_of m k"

definition map_set :: "('k, 'v) jsmap \<Rightarrow> 'k \<Rightarrow> 'v \<Rightarrow> ('k, 'v) jsmap" where
  "map_set m k v = (if map_has m k then map (\<lambda>(k', v'). if k' = k then (k', v) else (k', v')) m
                    else m @ [(k, v)])"

definition map_values :: "('k, 'v) jsmap \<Rightarrow> 'v list" where
  "map_values m = map snd m"

section \<open>Reclassification and aggregation\<close>

text \<open>
  \<open>normalizeComponentIconClassification\<close> reads and replaces the \<open>components\<close> and
  \<open>icons\<close> of its argument, and assigns \<open>isIcon\<close> on every entry it pushes. The test is
  the same in both loops.
\<close>

definition looksIcon :: "comp_ref \<Rightarrow> bool" where
  "looksIcon c =
     (let name = toLowerCase (js_or (cr_masterName c) (js_or (cr_fullName c) (opt_str (cr_name c))));
          setName = toLowerCase (opt_str (cr_setName c))
      in iconNameRegex_test name \<or> icon_substring_test setName \<or> cr_isIcon c = True)"

definition pushComp :: "comp_ref \<Rightarrow> comp_ref list \<times> comp_ref list \<Rightarrow> comp_ref list \<times> comp_ref list" where
  "pushComp c acc = (fst acc @ [c\<lparr>cr_isIcon := False\<rparr>], snd acc)"

definition pushIcon :: "comp_ref \<Rightarrow> comp_ref list \<times> comp_ref list \<Rightarrow> comp_ref list \<times> comp_ref list" where
  "pushIcon c acc = (fst acc, snd acc @ [c\<lparr>cr_isIcon := True\<rparr>])"

text \<open>One \<open>for ... of\<close> loop; the accumulator is \<open>(reclassComponents, reclassIcons)\<close>.\<close>

fun reclass_loop ::
  "comp_ref list \<Rightarrow> comp_ref list \<times> comp_ref list \<Rightarrow> comp_ref list \<times> comp_ref list" where
  "reclass_loop [] acc = acc"
| "reclass_loop (c # cs) acc =
     reclass_loop cs (if looksIcon c then pushIcon c acc else pushComp c acc)"

definition normalizeComponentIconClassification :: "analysis \<Rightarrow> analysis" where
  "normalizeComponentIconClassification analysisData =
     (let acc = reclass_loop (a_icons analysisData)
                  (reclass_loop (a_components analysisData) ([], []))
      in analysisData\<lparr>a_components := fst acc, a_icons := snd acc\<rparr>)"

text \<open>
  \<open>collectSummaryData\<close>. The cache \<open>globalAnalysisData\<close> is a \<open>Map\<close> from frame name to
  record; \<open>frameCount\<close> is the number of analysis frames found on the analysis page, which
  the host supplies.
\<close>

record summary =
  s_frameCount :: nat
  s_totalComponents :: nat
  s_totalIcons :: nat
  s_totalFonts :: nat
  s_totalColors :: nat
  s_components :: "comp_ref list"
  s_icons :: "comp_ref list"
  s_fonts :: "font_usage list"
  s_colors :: "color_usage list"

text \<open>The key of a component or icon in the summary maps.\<close>

definition comp_key :: "comp_ref \<Rightarrow> string" where
  "comp_key c =
     (if cr_isVariant c
      then cr_masterName c @ '':'' @ (case cr_variantName c of None \<Rightarrow> ''null'' | Some v \<Rightarrow> v)
      else cr_masterName c)"

text \<open>\<open>if (!m.has(key)) m.set(key, value)\<close>.\<close>

definition set_if_absent :: "('k, 'v) jsmap \<Rightarrow> 'k \<Rightarrow> 'v \<Rightarrow> ('k, 'v) jsmap" where
  "set_if_absent m k v = (if \<not> map_has m k then map_set m k v else m)"

fun aggregate_comps :: "comp_ref list \<Rightarrow> (string, comp_ref) jsmap \<Rightarrow> (string, comp_ref) jsmap" where
  "aggregate_comps [] m = m"
| "aggregate_comps (c # cs) m = aggregate_comps cs (set_if_absent m (comp_key c) c)"

text \<open>The font key \<open>f.displayString || f.fontString || `${family} ${style} ${size}`\<close>;
  no record has a \<open>fontString\<close>.\<close>

definition font_size_str :: "(number \<Rightarrow> string) \<Rightarrow> font_size \<Rightarrow> string" where
  "font_size_str numStr z = (case z of Px n \<Rightarrow> numStr n | Unknown \<Rightarrow> ''Unknown'' | Mixed \<Rightarrow> ''Mixed'')"

definition summary_font_key :: "(number \<Rightarrow> string) \<Rightarrow> font_usage \<Rightarrow> string" where
  "summary_font_key numStr f =
     js_or (fu_displayString f)
       (js_or [] (fu_fontFamily f @ '' '' @ fu_fontStyle f @ '' '' @ font_size_str numStr (fu_fontSize f)))"

fun aggregate_fonts ::
  "(number \<Rightarrow> string) \<Rightarrow> font_usage list \<Rightarrow> (string, font_usage) jsmap \<Rightarrow> (string, font_usage) jsmap" where
  "aggregate_fonts numStr [] m = m"
| "aggregate_fonts numStr (f # fs) m = aggregate_fonts numStr fs (set_if_absent m (summary_font_key numStr f) f)"

text \<open>
  The colour key \<open>c.hex || c\<close>: the hex string, or for an empty hex the colour object
  itself, which a \<open>Map\<close> compares by identity. An object is identified by where it sits:
  the index of its record in the cache and its index in that record's colours.
\<close>

datatype color_key = HexKey string | ObjKey nat nat

definition summary_color_key :: "nat \<Rightarrow> nat \<Rightarrow> color_usage \<Rightarrow> color_key" where
  "summary_color_key i j c = (if cu_hex c \<noteq> [] then HexKey (cu_hex c) else ObjKey i j)"

fun aggregate_colors ::
  "nat \<Rightarrow> nat \<Rightarrow> color_usage list \<Rightarrow> (color_key, color_usage) jsmap \<Rightarrow> (color_key, color_usage) jsmap" where
  "aggregate_colors i j [] m = m"
| "aggregate_colors i j (c # cs) m =
     aggregate_colors i (Suc j) cs (set_if_absent m (summary_color_key i j c) c)"

record aggregation =
  aggregatedComponents :: "(string, comp_ref) jsmap"
  aggregatedIcons :: "(string, comp_ref) jsmap"
  aggregatedFonts :: "(string, font_usage) jsmap"
  aggregatedColors :: "(color_key, color_usage) jsmap"

text \<open>The body of the loop over the cache, for the record at index \<open>i\<close>.\<close>

definition aggregate_record ::
  "(number \<Rightarrow> string) \<Rightarrow> nat \<Rightarrow> analysis \<Rightarrow> aggregation \<Rightarrow> aggregation" where
  "aggregate_record numStr i analysisData g =
     (let normalized = normalizeComponentIconClassification analysisData
      in \<lparr>aggregatedComponents = aggregate_comps (a_components normalized) (aggregatedComponents g),
          aggregatedIcons = aggregate_comps (a_icons normalized) (aggregatedIcons g),
          aggregatedFonts = aggregate_fonts numStr (a_fonts analysisData) (aggregatedFonts g),
          aggregatedColors = aggregate_colors i 0 (a_colors analysisData) (aggregatedColors g)\<rparr>)"

fun aggregate_cache ::
  "(number \<Rightarrow> string) \<Rightarrow> nat \<Rightarrow> (string, analysis) jsmap \<Rightarrow> aggregation \<Rightarrow> aggregation" where
  "aggregate_cache numStr i [] g = g"
| "aggregate_cache numStr i ((frameName, analysisData) # rest) g =
     aggregate_cache numStr (Suc i) rest (aggregate_record numStr i analysisData g)"

definition empty_aggregation :: aggregation where
  "empty_aggregation =
     \<lparr>aggregatedComponents = [], aggregatedIcons = [], aggregatedFonts = [], aggregatedColors = []\<rparr>"

definition collectSummaryData ::
  "(number \<Rightarrow> string) \<Rightarrow> nat \<Rightarrow> (string, analysis) jsmap \<Rightarrow> summary" where
  "collectSummaryData numStr frameCount globalAnalysisData =
     (let g = aggregate_cache numStr 0 globalAnalysisData empty_aggregation
      in \<lparr>s_frameCount = frameCount,
          s_totalComponents = length (aggregatedComponents g),
          s_totalIcons = length (aggregatedIcons g),
          s_totalFonts = length (aggregatedFonts g),
          s_totalColors = length (aggregatedColors g),
          s_components = map_values (aggregatedComponents g),
          s_icons = map_values (aggregatedIcons g),
          s_fonts = map_values (aggregatedFonts g),
          s_colors = map_values (aggregatedColors g)\<rparr>)"

text \<open>Sample data: a stand-alone reference with a given name, instance count and flag, and
  a record holding given components, icons, fonts and colours.\<close>

definition sample_ref :: "string \<Rightarrow> nat \<Rightarrow> bool \<Rightarrow> comp_ref" where
  "sample_ref n k flag =
     \<lparr>cr_masterName = n, cr_variantName = None, cr_fullName = n, cr_key = n, cr_id = n,
      cr_isVariant = False, cr_instanceCount = k, cr_isIcon = flag,
      cr_name = None, cr_setName = None\<rparr>"

definition sample_analysis ::
  "comp_ref list \<Rightarrow> comp_ref list \<Rightarrow> font_usage list \<Rightarrow> color_usage list \<Rightarrow> analysis" where
  "sample_analysis cs is fs ks =
     \<lparr>a_components = cs, a_icons = is, a_fonts = fs, a_colors = ks, a_colorStyles = [],
      a_textStyles = [], a_effectStyles = [],
      a_frameInfo = \<lparr>fr_name = ''Frame'', fr_width = 100, fr_height = 100, fr_elementCount = 0\<rparr>\<rparr>"

text \<open>A run of \<open>if (!m.has(k)) m.set(k, v)\<close> over a list of keyed values.\<close>

definition ins_all :: "('k \<times> 'v) list \<Rightarrow> ('k, 'v) jsmap \<Rightarrow> ('k, 'v) jsmap" where
  "ins_all kvs m = foldl (\<lambda>m (k, v). set_if_absent m k v) m kvs"

text \<open>The colours of the cached records from index \<open>i\<close> on, each with its summary key.\<close>

definition keyed_colors :: "nat \<Rightarrow> color_usage list \<Rightarrow> (color_key \<times> color_usage) list" where
  "keyed_colors i cs = map (\<lambda>(j, c). (summary_color_key i j c, c)) (enumerate 0 cs)"

fun cache_colors :: "nat \<Rightarrow> (string, analysis) jsmap \<Rightarrow> (color_key \<times> color_usage) list" where
  "cache_colors i [] = []"
| "cache_colors i ((frameName, analysisData) # rest) =
     keyed_colors i (a_colors analysisData) @ cache_colors (Suc i) rest"

text \<open>The entries the aggregator iterates over, in order: the components and the icons of
  every cached record after its reclassification, and the colours of every cached record.\<close>

definition reclassified_components :: "(string, analysis) jsmap \<Rightarrow> comp_ref list" where
  "reclassified_components cache =
     concat (map (\<lambda>(n, r). a_components (normalizeComponentIconClassification r)) cache)"

definition reclassified_icons :: "(string, analysis) jsmap \<Rightarrow> comp_ref list" where
  "reclassified_icons cache =
     concat (map (\<lambda>(n, r). a_icons (normalizeComponentIconClassification r)) cache)"

definition cached_colors :: "(string, analysis) jsmap \<Rightarrow> color_usage list" where
  "cached_colors cache = concat (map (\<lambda>(n, r). a_colors r) cache)"

definition sample_color :: "string \<Rightarrow> string \<Rightarrow> number \<Rightarrow> string option \<Rightarrow> color_usage" where
  "sample_color h r a s =
     \<lparr>cu_hex = h, cu_rgb565 = r, cu_opacity = a, cu_displayHex = h, cu_styleName = s,
      cu_type = Fill\<rparr>"

definition sample_font :: "string \<Rightarrow> string \<Rightarrow> font_size \<Rightarrow> string option \<Rightarrow> font_usage" where
  "sample_font fam sty z s =
     \<lparr>fu_fontKey = fam @ '' - '' @ sty, fu_fontFamily = fam, fu_fontStyle = sty, fu_fontSize = z,
      fu_styleName = s, fu_displayString = fam @ '' '' @ sty, fu_hasStyle = truthy s\<rparr>"

section \<open>Export encoder\<close>

text \<open>
  \<open>generateLVGLJson\<close> builds two plain objects keyed by identifier. A plain object is a
  partial map from property names to values. Reading a property that the object does not
  own falls through to \<open>Object.prototype\<close>, whose properties are all truthy; the test
  \<open>!jsonData.typography[lvglName]\<close> therefore fails for an owned name and for each of
  these inherited names.
\<close>

definition object_prototype_names :: "string list" where
  "object_prototype_names =
     [''constructor'', ''__defineGetter__'', ''__defineSetter__'', ''hasOwnProperty'',
      ''__lookupGetter__'', ''__lookupSetter__'', ''isPrototypeOf'', ''propertyIsEnumerable'',
      ''toString'', ''valueOf'', ''__proto__'', ''toLocaleString'']"

definition prop_truthy :: "(string \<rightharpoonup> 'v) \<Rightarrow> string \<Rightarrow> bool" where
  "prop_truthy obj k \<longleftrightarrow> obj k \<noteq> None \<or> k \<in> set object_prototype_names"

text \<open>
  The identifier: \<open>.replace(/[^a-zA-Z0-9_\s-]/g, '')\<close>, then \<open>.replace(/[\s-]+/g, '_')\<close>,
  then \<open>.toLowerCase()\<close>. In \<open>collapse_runs\<close> the flag tells whether the previous character
  belonged to a run of white space and hyphens, whose underscore is already written.
\<close>

definition keeps :: "char \<Rightarrow> bool" where
  "keeps c \<longleftrightarrow> is_alnum c \<or> c = CHR ''_'' \<or> is_space c \<or> c = CHR ''-''"

definition strip_special :: "string \<Rightarrow> string" where
  "strip_special s = filter keeps s"

definition space_or_hyphen :: "char \<Rightarrow> bool" where
  "space_or_hyphen c \<longleftrightarrow> is_space c \<or> c = CHR ''-''"

fun collapse_runs :: "bool \<Rightarrow> string \<Rightarrow> string" where
  "collapse_runs in_run [] = []"
| "collapse_runs in_run (c # cs) =
     (if space_or_hyphen c
      then (if in_run then collapse_runs True cs else CHR ''_'' # collapse_runs True cs)
      else c # collapse_runs False cs)"

definition lvglName :: "string \<Rightarrow> string" where
  "lvglName key = toLowerCase (collapse_runs False (strip_special key))"

text \<open>\<open>s.replace('#', r)\<close>: the first \<open>#\<close> of \<open>s\<close> replaced by \<open>r\<close> (neither replacement
  used contains a \<open>$\<close> pattern).\<close>

fun replace_hash :: "string \<Rightarrow> string \<Rightarrow> string" where
  "replace_hash r [] = []"
| "replace_hash r (c # cs) = (if c = CHR ''#'' then r @ cs else c # replace_hash r cs)"

record font_export =
  figma_style_name :: "string option"
  font_family :: string
  font_size :: font_size
  font_weight :: string
  lvgl_font :: string
  lvgl_declaration :: string

record color_export =
  c_figma_style_name :: "string option"
  c_hex :: string
  c_rgb565 :: string
  lvgl_color :: string
  lvgl_macro :: string

record lvgl_json =
  colors :: "string \<rightharpoonup> color_export"
  typography :: "string \<rightharpoonup> font_export"

text \<open>\<open>font.fontSize || 12\<close>: the number 0 is falsy, the strings are not.\<close>

definition font_size_or_12 :: "font_size \<Rightarrow> font_size" where
  "font_size_or_12 z = (case z of Px n \<Rightarrow> if n = 0 then Px 12 else Px n | _ \<Rightarrow> z)"

text \<open>\<open>x || null\<close> on a style name.\<close>

definition or_null :: "string option \<Rightarrow> string option" where
  "or_null v = (if truthy v then v else None)"

text \<open>The body of \<open>analysisData.fonts.forEach\<close>.\<close>

definition export_font ::
  "(number \<Rightarrow> string) \<Rightarrow> font_usage \<Rightarrow> lvgl_json \<Rightarrow> lvgl_json" where
  "export_font numStr font jsonData =
     (let fontFamily = js_or (fu_fontFamily font) ''unknown'';
          fontStyle = js_or (fu_fontStyle font) ''regular'';
          fontSize = font_size_or_12 (fu_fontSize font);
          styleKey = (if truthy (fu_styleName font) then opt_str (fu_styleName font)
                      else fontFamily @ ''_'' @ fontStyle @ ''_'' @ font_size_str numStr fontSize);
          name = lvglName styleKey
      in if \<not> prop_truthy (typography jsonData) name
         then jsonData\<lparr>typography := (typography jsonData)(name \<mapsto>
                \<lparr>figma_style_name = or_null (fu_styleName font),
                 font_family = fontFamily,
                 font_size = fontSize,
                 font_weight = fontStyle,
                 lvgl_font = CHR ''&'' # name,
                 lvgl_declaration = ''LV_FONT_DECLARE('' @ name @ '');''\<rparr>)\<rparr>
         else jsonData)"

text \<open>The body of \<open>analysisData.colors.forEach\<close>.\<close>

definition export_color ::
  "(number \<Rightarrow> number) \<Rightarrow> color_usage \<Rightarrow> lvgl_json \<Rightarrow> lvgl_json" where
  "export_color fl color jsonData =
     (let hex = js_or (cu_hex color) ''#000000'';
          rgb565 = js_or (cu_rgb565 color) (hexToRgb565 fl hex);
          colorKey = (if truthy (cu_styleName color) then opt_str (cu_styleName color)
                      else replace_hash ''color_'' hex);
          name = lvglName colorKey
      in if \<not> prop_truthy (colors jsonData) name
         then jsonData\<lparr>colors := (colors jsonData)(name \<mapsto>
                \<lparr>c_figma_style_name = or_null (cu_styleName color),
                 c_hex = hex,
                 c_rgb565 = rgb565,
                 lvgl_color = ''lv_color_hex('' @ replace_hash ''0x'' hex @ '')'',
                 lvgl_macro = ''#define '' @ toUpperCase name @ '' '' @ rgb565\<rparr>)\<rparr>
         else jsonData)"

fun export_record ::
  "(number \<Rightarrow> number) \<Rightarrow> (number \<Rightarrow> string) \<Rightarrow> analysis \<Rightarrow> lvgl_json \<Rightarrow> lvgl_json" where
  "export_record fl numStr analysisData jsonData =
     foldl (\<lambda>j c. export_color fl c j)
       (foldl (\<lambda>j f. export_font numStr f j) jsonData (a_fonts analysisData))
       (a_colors analysisData)"

definition generateLVGLJson ::
  "(number \<Rightarrow> number) \<Rightarrow> (number \<Rightarrow> string) \<Rightarrow> (string, analysis) jsmap \<Rightarrow> lvgl_json" where
  "generateLVGLJson fl numStr globalAnalysisData =
     foldl (\<lambda>j (frameName, analysisData). export_record fl numStr analysisData j)
       \<lparr>colors = Map.empty, typography = Map.empty\<rparr> globalAnalysisData"

subsection \<open>The encoder as the specification words it\<close>

text \<open>The source of a key: the style name when there is one (not \<open>null\<close>, not empty),
  otherwise \<open>family_style_size\<close> for a font and \<open>color_RRGGBB\<close> for a colour, with the
  defaults of the code for a missing family, style, size or hex.\<close>

definition font_key_source :: "(number \<Rightarrow> string) \<Rightarrow> font_usage \<Rightarrow> string" where
  "font_key_source numStr f =
     (case fu_styleName f of
        Some s \<Rightarrow> if s \<noteq> [] then s else
          js_or (fu_fontFamily f) ''unknown'' @ ''_'' @ js_or (fu_fontStyle f) ''regular'' @ ''_''
            @ font_size_str numStr (font_size_or_12 (fu_fontSize f))
      | None \<Rightarrow>
          js_or (fu_fontFamily f) ''unknown'' @ ''_'' @ js_or (fu_fontStyle f) ''regular'' @ ''_''
            @ font_size_str numStr (font_size_or_12 (fu_fontSize f)))"

definition color_key_source :: "color_usage \<Rightarrow> string" where
  "color_key_source c =
     (case cu_styleName c of
        Some s \<Rightarrow> if s \<noteq> [] then s else replace_hash ''color_'' (js_or (cu_hex c) ''#000000'')
      | None \<Rightarrow> replace_hash ''color_'' (js_or (cu_hex c) ''#000000''))"

text \<open>The entry written for a font or a colour under the key \<open>k\<close>.\<close>

definition font_entry :: "string \<Rightarrow> font_usage \<Rightarrow> font_export" where
  "font_entry k f =
     \<lparr>figma_style_name = or_null (fu_styleName f),
      font_family = js_or (fu_fontFamily f) ''unknown'',
      font_size = font_size_or_12 (fu_fontSize f),
      font_weight = js_or (fu_fontStyle f) ''regular'',
      lvgl_font = CHR ''&'' # k,
      lvgl_declaration = ''LV_FONT_DECLARE('' @ k @ '');''\<rparr>"

definition color_entry :: "(number \<Rightarrow> number) \<Rightarrow> string \<Rightarrow> color_usage \<Rightarrow> color_export" where
  "color_entry fl k c =
     \<lparr>c_figma_style_name = or_null (cu_styleName c),
      c_hex = js_or (cu_hex c) ''#000000'',
      c_rgb565 = js_or (cu_rgb565 c) (hexToRgb565 fl (js_or (cu_hex c) ''#000000'')),
      lvgl_color = ''lv_color_hex('' @ replace_hash ''0x'' (js_or (cu_hex c) ''#000000'') @ '')'',
      lvgl_macro = ''#define '' @ toUpperCase k @ '' '' @
                   js_or (cu_rgb565 c) (hexToRgb565 fl (js_or (cu_hex c) ''#000000''))\<rparr>"

definition cached_fonts :: "(string, analysis) jsmap \<Rightarrow> font_usage list" where
  "cached_fonts cache = concat (map (\<lambda>(n, r). a_fonts r) cache)"

text \<open>The characters of an identifier: lower-case ASCII letters, digits and underscore.\<close>

definition is_ident_char :: "char \<Rightarrow> bool" where
  "is_ident_char c \<longleftrightarrow> is_lower c \<or> is_digit c \<or> c = CHR ''_''"

text \<open>\<open>if (!obj[k]) obj[k] = v\<close> over a list of keyed values.\<close>

definition obj_ins_all :: "(string \<times> 'v) list \<Rightarrow> (string \<rightharpoonup> 'v) \<Rightarrow> (string \<rightharpoonup> 'v)" where
  "obj_ins_all kvs obj = foldl (\<lambda>m (k, v). if \<not> prop_truthy m k then m(k \<mapsto> v) else m) obj kvs"

section \<open>Frame extractor\<close>

subsection \<open>The host's nodes\<close>

text \<open>
  What \<open>analyzeNode\<close> reads of a node. A getter or an asynchronous host call either throws
  or yields a value. \<open>fontName\<close> is absent, the host's \<open>mixed\<close> symbol, or a family and a
  style; \<open>fontSize\<close> is absent, a number, the \<open>mixed\<close> symbol (whose \<open>typeof\<close> is
  \<open>symbol\<close>), or an object. A style identifier is a string, empty for no style. A paint
  list is absent (or \<open>mixed\<close>), or an array.
\<close>

datatype 'a access = Throws | Value 'a

record paint =
  p_type :: string
  p_color :: "(number \<times> number \<times> number) option"
  p_visible :: "bool option"
  p_opacity :: "number option"

record style =
  st_name :: string
  st_fontSize :: "number option"

datatype font_name_prop = FontAbsent | FontMixed | FontName string string

datatype font_size_prop = SizeAbsent | SizeNumber number | SizeMixed | SizeObject

record node =
  n_id :: string
  n_type :: string
  n_removed :: bool
  n_visible :: bool
  n_width :: number
  n_height :: number
  n_mainComponent :: "main_component option access"
  n_getMainComponentAsync :: "main_component option access"
  n_fontName :: font_name_prop
  n_fontSize :: font_size_prop
  n_textStyleId :: string
  n_fills :: "paint list option"
  n_fillStyleId :: string
  n_strokes :: "paint list option"
  n_strokeStyleId :: string
  n_effectStyleId :: string

text \<open>The host: the rounding of inexact arithmetic, the printing of a number in a template
  string, and \<open>figma.getStyleByIdAsync\<close>, which throws, yields \<open>null\<close> or yields a style.\<close>

record host =
  host_fl :: "number \<Rightarrow> number"
  host_numStr :: "number \<Rightarrow> string"
  getStyleByIdAsync :: "string \<Rightarrow> style option access"

subsection \<open>The accumulation maps of one pass\<close>

record font_info =
  fi_fontFamily :: string
  fi_fontStyle :: string
  fi_fontSize :: font_size
  fi_styleName :: "string option"

record color_info =
  ci_hex :: string
  ci_opacity :: number
  ci_styleName :: "string option"
  ci_type :: paint_origin

record text_style_info =
  ti_fontFamily :: string
  ti_fontStyle :: string
  ti_fontSize :: font_size

record pass_state =
  m_components :: "(string, comp_ref) jsmap"
  m_icons :: "(string, comp_ref) jsmap"
  m_fonts :: "(string, font_info) jsmap"
  m_colors :: "(string, color_info) jsmap"
  m_colorStyles :: "string list"
  m_textStyles :: "(string, text_style_info) jsmap"
  m_effectStyles :: "string list"
  processedNodes :: "string list"

text \<open>\<open>Set.prototype.add\<close> on a set kept in insertion order.\<close>

definition set_add :: "string list \<Rightarrow> string \<Rightarrow> string list" where
  "set_add s x = (if x \<in> set s then s else s @ [x])"

text \<open>An integer in a template string: decimal digits, a minus sign when negative.\<close>

fun digits10 :: "nat \<Rightarrow> string" where
  "digits10 n = (if n < 10 then [''0123456789'' ! n] else digits10 (n div 10) @ [''0123456789'' ! (n mod 10)])"

declare digits10.simps [simp del]

definition int_str :: "int \<Rightarrow> string" where
  "int_str i = (if i < 0 then CHR ''-'' # digits10 (nat (- i)) else digits10 (nat i))"

subsection \<open>analyzeNode\<close>

text \<open>A step of the function body either returns from the function or goes on.\<close>

datatype flow = Return pass_state | Continue pass_state

text \<open>
  The upsert of a component reference into \<open>targetMap\<close>, which is \<open>icons\<close> or
  \<open>components\<close>.
\<close>

definition upsert_component ::
  "main_component \<Rightarrow> parent_node option \<Rightarrow> (string, comp_ref) jsmap \<Rightarrow> (string, comp_ref) jsmap" where
  "upsert_component mainComponent masterSet targetMap =
     (let variantKey = js_or (mc_key mainComponent) (mc_id mainComponent);
          isIcon = isComponentAnIcon (Some mainComponent)
      in if \<not> map_has targetMap variantKey
         then (let isVariant = (masterSet \<noteq> None)
               in map_set targetMap variantKey
                    \<lparr>cr_masterName = (case masterSet of Some p \<Rightarrow> pn_name p
                                       | None \<Rightarrow> mc_name mainComponent),
                     cr_variantName = (if isVariant then Some (mc_name mainComponent) else None),
                     cr_fullName = mc_name mainComponent,
                     cr_key = mc_key mainComponent,
                     cr_id = mc_id mainComponent,
                     cr_isVariant = isVariant,
                     cr_instanceCount = 1,
                     cr_isIcon = isIcon,
                     cr_name = None,
                     cr_setName = None\<rparr>)
         else (case map_get targetMap variantKey of
                 Some existing \<Rightarrow>
                   map_set targetMap variantKey
                     (existing\<lparr>cr_instanceCount := cr_instanceCount existing + 1\<rparr>)
               | None \<Rightarrow> targetMap))"

text \<open>The parent of a component when it is a component set.\<close>

definition component_set_of :: "main_component \<Rightarrow> parent_node option" where
  "component_set_of mc =
     (case mc_parent mc of
        Some p \<Rightarrow> if pn_type p = ''COMPONENT_SET'' then Some p else None
      | None \<Rightarrow> None)"

text \<open>The block \<open>if (node.type === 'INSTANCE') { try { ... } catch { } }\<close>. A throwing
  getter or host call ends the \<open>try\<close> and the function goes on; the two \<open>return\<close>
  statements leave the function.\<close>

definition instance_step :: "node \<Rightarrow> pass_state \<Rightarrow> flow" where
  "instance_step node st =
     (if n_type node = ''INSTANCE'' then
        (case n_mainComponent node of
           Throws \<Rightarrow> Continue st
         | Value None \<Rightarrow> Return st
         | Value (Some _) \<Rightarrow>
             (case n_getMainComponentAsync node of
                Throws \<Rightarrow> Continue st
              | Value None \<Rightarrow> Continue st
              | Value (Some mainComponent) \<Rightarrow>
                  if mc_name mainComponent \<noteq> []
                     \<and> (mc_key mainComponent \<noteq> [] \<or> mc_id mainComponent \<noteq> [])
                  then
                    (let masterSet = component_set_of mainComponent;
                         masterName = (case masterSet of Some p \<Rightarrow> pn_name p
                                       | None \<Rightarrow> mc_name mainComponent)
                     in if masterName = [] then Return st
                        else if isComponentAnIcon (Some mainComponent)
                        then Continue (st\<lparr>m_icons := upsert_component mainComponent masterSet (m_icons st)\<rparr>)
                        else Continue (st\<lparr>m_components :=
                                upsert_component mainComponent masterSet (m_components st)\<rparr>))
                  else Continue st))
      else Continue st)"

text \<open>The font size of a text node: its own non-zero number, \<open>Mixed\<close> for an object,
  otherwise the non-zero size of its text style when that resolves, otherwise \<open>Unknown\<close>.\<close>

definition resolve_font_size :: "host \<Rightarrow> node \<Rightarrow> font_size" where
  "resolve_font_size h node =
     (case n_fontSize node of
        SizeNumber x \<Rightarrow>
          if x \<noteq> 0 then Px x
          else if n_textStyleId node \<noteq> [] then
            (case getStyleByIdAsync h (n_textStyleId node) of
               Value (Some style) \<Rightarrow>
                 (case st_fontSize style of Some z \<Rightarrow> if z \<noteq> 0 then Px z else Unknown
                  | None \<Rightarrow> Unknown)
             | _ \<Rightarrow> Unknown)
          else Unknown
      | SizeObject \<Rightarrow> Mixed
      | _ \<Rightarrow>
          if n_textStyleId node \<noteq> [] then
            (case getStyleByIdAsync h (n_textStyleId node) of
               Value (Some style) \<Rightarrow>
                 (case st_fontSize style of Some z \<Rightarrow> if z \<noteq> 0 then Px z else Unknown
                  | None \<Rightarrow> Unknown)
             | _ \<Rightarrow> Unknown)
          else Unknown)"

text \<open>The style a node refers to by an identifier: \<open>None\<close> when the identifier is empty,
  or the lookup throws or yields \<open>null\<close>.\<close>

definition resolve_style :: "host \<Rightarrow> string \<Rightarrow> style option" where
  "resolve_style h styleId =
     (if styleId \<noteq> [] then
        (case getStyleByIdAsync h styleId of Value (Some style) \<Rightarrow> Some style | _ \<Rightarrow> None)
      else None)"

definition fontKey_of :: "host \<Rightarrow> string \<Rightarrow> string \<Rightarrow> font_size \<Rightarrow> string" where
  "fontKey_of h family sty z =
     family @ '' - '' @ sty @ '' - '' @ font_size_str (host_numStr h) z @ ''px''"

text \<open>\<open>if (!fonts.has(fontKey)) fonts.set(...) else if (styleName && !fonts.get(fontKey).styleName)
  fonts.get(fontKey).styleName = styleName\<close>.\<close>

definition upsert_font ::
  "string \<Rightarrow> font_info \<Rightarrow> (string, font_info) jsmap \<Rightarrow> (string, font_info) jsmap" where
  "upsert_font fontKey info fonts =
     (if \<not> map_has fonts fontKey then map_set fonts fontKey info
      else (case map_get fonts fontKey of
              Some existing \<Rightarrow>
                if truthy (fi_styleName info) \<and> \<not> truthy (fi_styleName existing)
                then map_set fonts fontKey (existing\<lparr>fi_styleName := fi_styleName info\<rparr>)
                else fonts
            | None \<Rightarrow> fonts))"

text \<open>The block that extracts the font and the text style.\<close>

definition font_step :: "host \<Rightarrow> node \<Rightarrow> pass_state \<Rightarrow> pass_state" where
  "font_step h node st =
     (case n_fontName node of
        FontName family sty \<Rightarrow>
          (let fontSize = resolve_font_size h node;
               fontKey = fontKey_of h family sty fontSize;
               style = resolve_style h (n_textStyleId node);
               styleName = map_option st_name style;
               st1 = (case style of
                        Some s \<Rightarrow> st\<lparr>m_textStyles := map_set (m_textStyles st) (st_name s)
                                     \<lparr>ti_fontFamily = family, ti_fontStyle = sty,
                                      ti_fontSize = fontSize\<rparr>\<rparr>
                      | None \<Rightarrow> st)
           in st1\<lparr>m_fonts := upsert_font fontKey
                    \<lparr>fi_fontFamily = family, fi_fontStyle = sty, fi_fontSize = fontSize,
                     fi_styleName = styleName\<rparr> (m_fonts st1)\<rparr>)
      | _ \<Rightarrow> st)"

text \<open>The test on one paint: solid, with a colour, not hidden, opacity not 0.\<close>

definition paint_counts :: "paint \<Rightarrow> bool" where
  "paint_counts p \<longleftrightarrow>
     p_type p = ''SOLID'' \<and> p_color p \<noteq> None \<and> p_visible p \<noteq> Some False \<and> p_opacity p \<noteq> Some 0"

definition colorKey_of :: "host \<Rightarrow> string \<Rightarrow> number \<Rightarrow> string" where
  "colorKey_of h hex opacity =
     (if opacity < 1 then hex @ ''@'' @ int_str (Math_round (host_fl h (opacity * 100))) @ ''%''
      else hex)"

definition upsert_color ::
  "string \<Rightarrow> color_info \<Rightarrow> (string, color_info) jsmap \<Rightarrow> (string, color_info) jsmap" where
  "upsert_color colorKey info colorMap =
     (if \<not> map_has colorMap colorKey then map_set colorMap colorKey info
      else (case map_get colorMap colorKey of
              Some existing \<Rightarrow>
                if truthy (ci_styleName info) \<and> \<not> truthy (ci_styleName existing)
                then map_set colorMap colorKey (existing\<lparr>ci_styleName := ci_styleName info\<rparr>)
                else colorMap
            | None \<Rightarrow> colorMap))"

text \<open>The body of \<open>for (const fill of node.fills)\<close> and of \<open>for (const stroke of
  node.strokes)\<close>; the two differ in the style identifier they resolve and in the type
  they record.\<close>

definition paint_step :: "host \<Rightarrow> paint_origin \<Rightarrow> string \<Rightarrow> paint \<Rightarrow> pass_state \<Rightarrow> pass_state" where
  "paint_step h origin styleId p st =
     (if paint_counts p then
        (case p_color p of
           Some (r, g, b) \<Rightarrow>
             (let hex = rgbToHex (host_fl h) r g b;
                  opacity = (case p_opacity p of Some x \<Rightarrow> x | None \<Rightarrow> 1);
                  style = resolve_style h styleId;
                  styleName = map_option st_name style;
                  st1 = (case style of
                           Some s \<Rightarrow> st\<lparr>m_colorStyles := set_add (m_colorStyles st) (st_name s)\<rparr>
                         | None \<Rightarrow> st);
                  colorKey = colorKey_of h hex opacity
              in st1\<lparr>m_colors := upsert_color colorKey
                       \<lparr>ci_hex = hex, ci_opacity = opacity, ci_styleName = styleName,
                        ci_type = origin\<rparr> (m_colors st1)\<rparr>)
         | None \<Rightarrow> st)
      else st)"

definition fills_step :: "host \<Rightarrow> node \<Rightarrow> pass_state \<Rightarrow> pass_state" where
  "fills_step h node st =
     (case n_fills node of
        Some fills \<Rightarrow> foldl (\<lambda>s fill. paint_step h Fill (n_fillStyleId node) fill s) st fills
      | None \<Rightarrow> st)"

definition strokes_step :: "host \<Rightarrow> node \<Rightarrow> pass_state \<Rightarrow> pass_state" where
  "strokes_step h node st =
     (case n_strokes node of
        Some strokes \<Rightarrow> foldl (\<lambda>s stroke. paint_step h Stroke (n_strokeStyleId node) stroke s) st strokes
      | None \<Rightarrow> st)"

definition effect_step :: "host \<Rightarrow> node \<Rightarrow> pass_state \<Rightarrow> pass_state" where
  "effect_step h node st =
     (case resolve_style h (n_effectStyleId node) of
        Some s \<Rightarrow> st\<lparr>m_effectStyles := set_add (m_effectStyles st) (st_name s)\<rparr>
      | None \<Rightarrow> st)"

text \<open>Everything after the early exits: the extraction proper.\<close>

definition extract_node :: "host \<Rightarrow> node \<Rightarrow> pass_state \<Rightarrow> pass_state" where
  "extract_node h node st =
     (case instance_step node st of
        Return st' \<Rightarrow> st'
      | Continue st' \<Rightarrow> effect_step h node (strokes_step h node (fills_step h node (font_step h node st'))))"

text \<open>
  \<open>analyzeNode(node, components, icons, fonts, colors, colorStyles, textStyles,
  effectStyles)\<close>, with the seven collections and the module's \<open>processedNodes\<close> in the
  state: the validity check, the duplicate check, the early exit for invisible and very
  small nodes, then the extraction.
\<close>

definition analyzeNode :: "host \<Rightarrow> node \<Rightarrow> pass_state \<Rightarrow> pass_state" where
  "analyzeNode h node st =
     (if n_type node = [] \<or> n_removed node = True then st
      else if n_id node \<in> set (processedNodes st) then st
      else (let st1 = st\<lparr>processedNodes := set_add (processedNodes st) (n_id node)\<rparr>
            in if n_visible node = False \<or> (n_width node < 1 \<and> n_height node < 1) then st1
               else extract_node h node st1))"

text \<open>The predicate \<open>analyzeFrame\<close> passes to \<open>findAll\<close>, and its loop over the nodes
  found (the batches only serve progress messages).\<close>

definition findAll_filter :: "node \<Rightarrow> bool" where
  "findAll_filter node \<longleftrightarrow> n_visible node \<noteq> False \<and> (n_width node \<ge> 1 \<or> n_height node \<ge> 1)"

fun analyzeNodes :: "host \<Rightarrow> node list \<Rightarrow> pass_state \<Rightarrow> pass_state" where
  "analyzeNodes h [] st = st"
| "analyzeNodes h (node # nodes) st =
     analyzeNodes h nodes
       (if n_type node \<noteq> [] \<and> n_removed node \<noteq> True then analyzeNode h node st else st)"

text \<open>The state \<open>analyzeFrame\<close> starts a pass with.\<close>

definition empty_pass :: pass_state where
  "empty_pass =
     \<lparr>m_components = [], m_icons = [], m_fonts = [], m_colors = [], m_colorStyles = [],
      m_textStyles = [], m_effectStyles = [], processedNodes = []\<rparr>"

text \<open>Sample data for the extractor: a host with exact arithmetic that prints the integer
  part of a number and resolves a style from a given table, a visible rectangle with given
  identifier, size and fills, a text node with a given style identifier, and a visible solid
  paint.\<close>

definition sample_host :: "(string \<times> string) list \<Rightarrow> host" where
  "sample_host styles =
     \<lparr>host_fl = (\<lambda>x. x),
      host_numStr = (\<lambda>x. int_str \<lfloor>x\<rfloor>),
      getStyleByIdAsync = (\<lambda>styleId. Value (map_option (\<lambda>n. \<lparr>st_name = n, st_fontSize = None\<rparr>)
                                                (map_of styles styleId)))\<rparr>"

definition sample_rect :: "string \<Rightarrow> number \<Rightarrow> number \<Rightarrow> paint list \<Rightarrow> node" where
  "sample_rect i w h fills =
     \<lparr>n_id = i, n_type = ''RECTANGLE'', n_removed = False, n_visible = True,
      n_width = w, n_height = h, n_mainComponent = Value None,
      n_getMainComponentAsync = Value None, n_fontName = FontAbsent, n_fontSize = SizeAbsent,
      n_textStyleId = [], n_fills = Some fills, n_fillStyleId = [], n_strokes = Some [],
      n_strokeStyleId = [], n_effectStyleId = []\<rparr>"

definition sample_text :: "string \<Rightarrow> string \<Rightarrow> node" where
  "sample_text i styleId =
     \<lparr>n_id = i, n_type = ''TEXT'', n_removed = False, n_visible = True,
      n_width = 120, n_height = 32, n_mainComponent = Value None,
      n_getMainComponentAsync = Value None, n_fontName = FontName ''Inter'' ''Bold'',
      n_fontSize = SizeNumber 24, n_textStyleId = styleId, n_fills = None, n_fillStyleId = [],
      n_strokes = None, n_strokeStyleId = [], n_effectStyleId = []\<rparr>"

definition solid_paint :: "number \<Rightarrow> number \<Rightarrow> number \<Rightarrow> number option \<Rightarrow> paint" where
  "solid_paint r g b a = \<lparr>p_type = ''SOLID'', p_color = Some (r, g, b), p_visible = Some True, p_opacity = a\<rparr>"

text \<open>The exclusion test of \<open>analyzeNode\<close>, and the test the specification words: invisible,
  or width and height both rounding to less than 1.\<close>

definition excluded :: "node \<Rightarrow> bool" where
  "excluded node \<longleftrightarrow> n_visible node = False \<or> (n_width node < 1 \<and> n_height node < 1)"

definition excluded_rounding :: "node \<Rightarrow> bool" where
  "excluded_rounding node \<longleftrightarrow>
     n_visible node = False \<or> (round (n_width node) < 1 \<and> round (n_height node) < 1)"

text \<open>The seven collections of a state, without the set of processed nodes.\<close>

definition collections :: "pass_state \<Rightarrow> pass_state" where
  "collections st = st\<lparr>processedNodes := []\<rparr>"

text \<open>A node the walk has not met before and can read.\<close>

definition fresh :: "node \<Rightarrow> pass_state \<Rightarrow> bool" where
  "fresh node st \<longleftrightarrow> n_type node \<noteq> [] \<and> n_removed node = False \<and> n_id node \<notin> set (processedNodes st)"

text \<open>The opacities the host documents for a paint: unspecified, or between 0 and 1.\<close>

definition paint_in_range :: "paint \<Rightarrow> bool" where
  "paint_in_range p \<longleftrightarrow> (case p_opacity p of None \<Rightarrow> True | Some x \<Rightarrow> 0 \<le> x \<and> x \<le> 1)"

definition paints_in_range :: "node \<Rightarrow> bool" where
  "paints_in_range node \<longleftrightarrow>
     (case n_fills node of None \<Rightarrow> True | Some ps \<Rightarrow> list_all paint_in_range ps)
     \<and> (case n_strokes node of None \<Rightarrow> True | Some ps \<Rightarrow> list_all paint_in_range ps)"

definition opacities_ok :: "(string, color_info) jsmap \<Rightarrow> bool" where
  "opacities_ok m \<longleftrightarrow> list_all (\<lambda>(k, e). 0 < ci_opacity e \<and> ci_opacity e \<le> 1) m"

text \<open>
  What may become of an entry that stays under its key: every field but the style name
  is kept, and the style name is kept too unless it was falsy (\<open>null\<close> or empty) and has
  become a truthy one.
\<close>

definition font_kept :: "font_info \<Rightarrow> font_info \<Rightarrow> bool" where
  "font_kept e e' \<longleftrightarrow>
     fi_fontFamily e' = fi_fontFamily e \<and> fi_fontStyle e' = fi_fontStyle e
     \<and> fi_fontSize e' = fi_fontSize e
     \<and> (fi_styleName e' = fi_styleName e
        \<or> (truthy (fi_styleName e) = False \<and> truthy (fi_styleName e') = True))"

definition color_kept :: "color_info \<Rightarrow> color_info \<Rightarrow> bool" where
  "color_kept e e' \<longleftrightarrow>
     ci_hex e' = ci_hex e \<and> ci_opacity e' = ci_opacity e \<and> ci_type e' = ci_type e
     \<and> (ci_styleName e' = ci_styleName e
        \<or> (truthy (ci_styleName e) = False \<and> truthy (ci_styleName e') = True))"

subsection \<open>The call on the selected frame\<close>

text \<open>
  The selected frame, as \<open>analyzeNode\<close> reads it. \<open>validateSelection\<close> admits only nodes
  whose type is \<open>FRAME\<close>: the type is a non-empty string other than \<open>INSTANCE\<close>, and a frame
  has no \<open>fontName\<close> property, so of the blocks of \<open>analyzeNode\<close> only those for the fills, the
  strokes and the effect style are entered.
\<close>

record frame_node =
  rt_id :: string
  rt_removed :: bool
  rt_visible :: bool
  rt_width :: number
  rt_height :: number
  rt_fills :: "paint list option"
  rt_fillStyleId :: string
  rt_strokes :: "paint list option"
  rt_strokeStyleId :: string
  rt_effectStyleId :: string

text \<open>
  \<open>analyzeFrame\<close> calls \<open>analyzeNode(frame, components, fonts, colors, colorStyles,
  textStyles, effectStyles)\<close>, seven arguments for eight parameters. In this call the
  parameter \<open>colors\<close> is bound to the set \<open>colorStyles\<close>, the parameter \<open>colorStyles\<close> to the
  map \<open>textStyles\<close> and the parameter \<open>effectStyles\<close> to \<open>undefined\<close>. In the body of the paint
  loops, \<open>colorStyles.add\<close> is then not a function, which throws inside the inner \<open>try\<close>
  after \<open>styleName\<close> has been assigned; \<open>colors.has\<close> is the membership test of the set;
  \<open>colors.set\<close> and \<open>colors.get\<close> are not functions, and their \<open>TypeError\<close> leaves the loop
  and the function through the outer \<open>catch\<close>.
\<close>

definition root_paint_step :: "host \<Rightarrow> string \<Rightarrow> paint \<Rightarrow> pass_state \<Rightarrow> pass_state access" where
  "root_paint_step h styleId p st =
     (if paint_counts p then
        (case p_color p of
           Some (r, g, b) \<Rightarrow>
             (let hex = rgbToHex (host_fl h) r g b;
                  opacity = (case p_opacity p of Some x \<Rightarrow> x | None \<Rightarrow> 1);
                  styleName = map_option st_name (resolve_style h styleId);
                  colorKey = colorKey_of h hex opacity
              in if colorKey \<notin> set (m_colorStyles st) then Throws
                 else if truthy styleName then Throws
                 else Value st)
         | None \<Rightarrow> Value st)
      else Value st)"

fun root_paints :: "host \<Rightarrow> string \<Rightarrow> paint list \<Rightarrow> pass_state \<Rightarrow> pass_state access" where
  "root_paints h styleId [] st = Value st"
| "root_paints h styleId (p # ps) st =
     (case root_paint_step h styleId p st of
        Throws \<Rightarrow> Throws
      | Value st' \<Rightarrow> root_paints h styleId ps st')"

text \<open>The effect block of that call: \<open>effectStyles.add\<close> on \<open>undefined\<close> throws inside its
  \<open>try\<close>, so nothing is stored whether the style resolves or not.\<close>

definition root_effect_step :: "host \<Rightarrow> frame_node \<Rightarrow> pass_state \<Rightarrow> pass_state" where
  "root_effect_step h frame st =
     (case resolve_style h (rt_effectStyleId frame) of Some s \<Rightarrow> st | None \<Rightarrow> st)"

definition analyzeNode_root :: "host \<Rightarrow> frame_node \<Rightarrow> pass_state \<Rightarrow> pass_state" where
  "analyzeNode_root h frame st =
     (if rt_removed frame = True then st
      else if rt_id frame \<in> set (processedNodes st) then st
      else (let st1 = st\<lparr>processedNodes := set_add (processedNodes st) (rt_id frame)\<rparr>
            in if rt_visible frame = False \<or> (rt_width frame < 1 \<and> rt_height frame < 1) then st1
               else (case (case rt_fills frame of
                             Some fills \<Rightarrow> root_paints h (rt_fillStyleId frame) fills st1
                           | None \<Rightarrow> Value st1) of
                       Throws \<Rightarrow> st1
                     | Value st2 \<Rightarrow>
                         (case (case rt_strokes frame of
                                  Some strokes \<Rightarrow> root_paints h (rt_strokeStyleId frame) strokes st2
                                | None \<Rightarrow> Value st2) of
                            Throws \<Rightarrow> st2
                          | Value st3 \<Rightarrow> root_effect_step h frame st3))))"

text \<open>
  The pass of \<open>analyzeFrame\<close> over a frame and the nodes below it: \<open>processedNodes.clear()\<close>
  and fresh collections, \<open>frame.findAll\<close> with its predicate (which yields descendants, not
  the frame), the call on the frame, then the loop over the nodes found.
\<close>

definition analyzeFrame_pass :: "host \<Rightarrow> frame_node \<Rightarrow> node list \<Rightarrow> pass_state" where
  "analyzeFrame_pass h frame descendants =
     (let allNodes = filter findAll_filter descendants
      in analyzeNodes h allNodes (analyzeNode_root h frame empty_pass))"

text \<open>The selected frame read as a node, for comparison with the call of the loop.\<close>

definition frame_as_node :: "frame_node \<Rightarrow> node" where
  "frame_as_node frame =
     \<lparr>n_id = rt_id frame, n_type = ''FRAME'', n_removed = rt_removed frame,
      n_visible = rt_visible frame, n_width = rt_width frame, n_height = rt_height frame,
      n_mainComponent = Value None, n_getMainComponentAsync = Value None,
      n_fontName = FontAbsent, n_fontSize = SizeAbsent, n_textStyleId = [],
      n_fills = rt_fills frame, n_fillStyleId = rt_fillStyleId frame,
      n_strokes = rt_strokes frame, n_strokeStyleId = rt_strokeStyleId frame,
      n_effectStyleId = rt_effectStyleId frame\<rparr>"

definition sample_frame :: "string \<Rightarrow> paint list \<Rightarrow> frame_node" where
  "sample_frame i fills =
     \<lparr>rt_id = i, rt_removed = False, rt_visible = True, rt_width = 375, rt_height = 812,
      rt_fills = Some fills, rt_fillStyleId = [], rt_strokes = Some [], rt_strokeStyleId = [],
      rt_effectStyleId = []\<rparr>"

subsection \<open>What a processed node leaves in the collections\<close>

text \<open>
  An instance on which the extraction ends early: its \<open>mainComponent\<close> is \<open>null\<close>, or its
  main component is a variant of a component set without a name (the two \<open>return\<close>
  statements of the instance block).
\<close>

definition broken_instance :: "node \<Rightarrow> bool" where
  "broken_instance node \<longleftrightarrow>
     n_type node = ''INSTANCE'' \<and>
     (case n_mainComponent node of
        Throws \<Rightarrow> False
      | Value None \<Rightarrow> True
      | Value (Some m) \<Rightarrow>
          (case n_getMainComponentAsync node of
             Value (Some mc) \<Rightarrow>
               mc_name mc \<noteq> [] \<and> (mc_key mc \<noteq> [] \<or> mc_id mc \<noteq> [])
               \<and> (case component_set_of mc of Some p \<Rightarrow> pn_name p = [] | None \<Rightarrow> False)
           | _ \<Rightarrow> False))"

text \<open>
  The collections of a state hold what a node has to give: the component of an instance
  under its key, among the icons or the components; the font of a text node under its font
  key, and its text style; each counted fill and stroke under its colour key, with the
  colour style; the effect style.
\<close>

definition holds_component :: "node \<Rightarrow> pass_state \<Rightarrow> bool" where
  "holds_component node st \<longleftrightarrow>
     (if n_type node = ''INSTANCE'' then
        (case n_mainComponent node of
           Value (Some m) \<Rightarrow>
             (case n_getMainComponentAsync node of
                Value (Some mc) \<Rightarrow>
                  (if mc_name mc \<noteq> [] \<and> (mc_key mc \<noteq> [] \<or> mc_id mc \<noteq> [])
                   then map_has (if isComponentAnIcon (Some mc) then m_icons st else m_components st)
                          (js_or (mc_key mc) (mc_id mc))
                   else True)
              | _ \<Rightarrow> True)
         | _ \<Rightarrow> True)
      else True)"

definition holds_font :: "host \<Rightarrow> node \<Rightarrow> pass_state \<Rightarrow> bool" where
  "holds_font h node st \<longleftrightarrow>
     (case n_fontName node of
        FontName family sty \<Rightarrow>
          map_has (m_fonts st) (fontKey_of h family sty (resolve_font_size h node))
          \<and> (case resolve_style h (n_textStyleId node) of
                Some s \<Rightarrow> map_has (m_textStyles st) (st_name s)
              | None \<Rightarrow> True)
      | _ \<Rightarrow> True)"

definition holds_paint :: "host \<Rightarrow> string \<Rightarrow> pass_state \<Rightarrow> paint \<Rightarrow> bool" where
  "holds_paint h styleId st p \<longleftrightarrow>
     (if paint_counts p then
        (case p_color p of
           Some (r, g, b) \<Rightarrow>
             map_has (m_colors st)
               (colorKey_of h (rgbToHex (host_fl h) r g b) (case p_opacity p of Some x \<Rightarrow> x | None \<Rightarrow> 1))
             \<and> (case resolve_style h styleId of
                   Some s \<Rightarrow> st_name s \<in> set (m_colorStyles st)
                 | None \<Rightarrow> True)
         | None \<Rightarrow> True)
      else True)"

definition holds_paints :: "host \<Rightarrow> string \<Rightarrow> paint list option \<Rightarrow> pass_state \<Rightarrow> bool" where
  "holds_paints h styleId paints st \<longleftrightarrow>
     (case paints of Some ps \<Rightarrow> list_all (holds_paint h styleId st) ps | None \<Rightarrow> True)"

definition holds_effect :: "host \<Rightarrow> node \<Rightarrow> pass_state \<Rightarrow> bool" where
  "holds_effect h node st \<longleftrightarrow>
     (case resolve_style h (n_effectStyleId node) of
        Some s \<Rightarrow> st_name s \<in> set (m_effectStyles st)
      | None \<Rightarrow> True)"

definition contributed :: "host \<Rightarrow> node \<Rightarrow> pass_state \<Rightarrow> bool" where
  "contributed h node st \<longleftrightarrow>
     holds_component node st \<and> holds_font h node st
     \<and> holds_paints h (n_fillStyleId node) (n_fills node) st
     \<and> holds_paints h (n_strokeStyleId node) (n_strokes node) st
     \<and> holds_effect h node st"

text \<open>The collections of \<open>st'\<close> have every key and member that those of \<open>st\<close> have.\<close>

definition grows :: "pass_state \<Rightarrow> pass_state \<Rightarrow> bool" where
  "grows st st' \<longleftrightarrow>
     fst ` set (m_components st) \<subseteq> fst ` set (m_components st')
     \<and> fst ` set (m_icons st) \<subseteq> fst ` set (m_icons st')
     \<and> fst ` set (m_fonts st) \<subseteq> fst ` set (m_fonts st')
     \<and> fst ` set (m_colors st) \<subseteq> fst ` set (m_colors st')
     \<and> fst ` set (m_textStyles st) \<subseteq> fst ` set (m_textStyles st')
     \<and> set (m_colorStyles st) \<subseteq> set (m_colorStyles st')
     \<and> set (m_effectStyles st) \<subseteq> set (m_effectStyles st')"

section \<open>Verification\<close>

subsection \<open>Arithmetic of the codec\<close>

text \<open>
  A quotient \<open>a / 255\<close> is never half-way between two integers (\<open>2 * a + 255\<close> is odd), and
  stays at least \<open>1 / 510\<close> away from such a point; the rounding error of the division is
  far smaller, so \<open>Math.round\<close> of the computed quotient is the rounding of the exact one.
\<close>

lemma round_quot255:
  assumes fl: "ieee_like fl" and a: "a \<le> 255 * 63"
  shows "Math_round (fl (of_nat a / 255)) = int ((2 * a + 255) div 510)"
    and "round (of_nat a / 255 :: rat) = int ((2 * a + 255) div 510)"
proof -
  define q :: rat where "q = of_nat a / 255"
  define m where "m = (2 * a + 255) div 510"
  define r where "r = (2 * a + 255) mod 510"
  have split: "2 * a + 255 = 510 * m + r" and r_lt: "r < 510"
    by (simp_all add: m_def r_def)
  have "odd (2 * a + 255)" by simp
  then have "odd r" unfolding split by simp
  then have r_pos: "1 \<le> r" and r_le: "r \<le> 509"
    using r_lt by (auto elim: oddE)
  have "of_nat (2 * a + 255) = (of_nat (510 * m + r) :: rat)"
    using split by simp
  then have qeq: "q + 1 / 2 = of_nat m + of_nat r / 510"
    by (simp add: q_def field_simps)
  have q0: "0 \<le> q" and q63: "q \<le> 63"
    using a by (simp_all add: q_def field_simps)
  have "\<bar>fl q - q\<bar> \<le> (\<bar>q\<bar> + 1) / 2 ^ 32"
    using fl by (simp add: ieee_like_def)
  also have "\<dots> \<le> 64 / 2 ^ 32"
    using q0 q63 by (simp add: field_simps)
  also have "\<dots> < 1 / 510" by simp
  finally have close: "\<bar>fl q - q\<bar> < 1 / 510" .
  have lo: "of_nat m + 1 / 510 \<le> q + 1 / 2"
    using r_pos by (simp add: qeq field_simps)
  have hi: "q + 1 / 2 \<le> of_nat m + 509 / 510"
    using r_le by (simp add: qeq field_simps)
  have c1: "fl q - q < 1 / 510" and c2: "q - fl q < 1 / 510"
    using close by linarith+
  have "\<lfloor>fl q + 1 / 2\<rfloor> = int m"
  proof (rule floor_unique)
    show "of_int (int m) \<le> fl q + 1 / 2" using c2 lo by simp
    show "fl q + 1 / 2 < of_int (int m) + 1" using c1 hi by simp
  qed
  then show "Math_round (fl (of_nat a / 255)) = int ((2 * a + 255) div 510)"
    by (simp add: Math_round_def q_def m_def)
  have "\<lfloor>q + 1 / 2\<rfloor> = int m"
    using lo hi by (intro floor_unique) auto
  then show "round (of_nat a / 255 :: rat) = int ((2 * a + 255) div 510)"
    by (simp add: round_def q_def m_def)
qed

lemma round_scaled_range:
  assumes fl: "ieee_like fl" and x: "0 \<le> x" "x \<le> 255"
  shows "0 \<le> Math_round (fl x)" and "Math_round (fl x) \<le> 255"
proof -
  have "\<bar>fl x - x\<bar> \<le> (\<bar>x\<bar> + 1) / 2 ^ 32"
    using fl by (simp add: ieee_like_def)
  also have "\<dots> \<le> 256 / 2 ^ 32" using x by (simp add: field_simps)
  also have "\<dots> < 1 / 2" by simp
  finally have "\<bar>fl x - x\<bar> < 1 / 2" .
  then have c1: "fl x - x < 1 / 2" and c2: "x - fl x < 1 / 2" by linarith+
  have "0 \<le> fl x + 1 / 2" using c2 x by linarith
  then show "0 \<le> Math_round (fl x)" by (simp add: Math_round_def)
  have "fl x + 1 / 2 < 256" using c1 x by linarith
  then have "\<lfloor>fl x + 1 / 2\<rfloor> < 256" by (simp add: floor_less_iff)
  then show "Math_round (fl x) \<le> 255" by (simp add: Math_round_def)
qed

lemma round_exact_int:
  assumes fl: "ieee_like fl" and n: "\<bar>n\<bar> \<le> 255"
  shows "Math_round (fl (of_int n)) = n"
proof -
  let ?x = "of_int n :: rat"
  have "\<bar>?x\<bar> \<le> 255" using n by (metis of_int_abs of_int_le_iff of_int_numeral)
  have "\<bar>fl ?x - ?x\<bar> \<le> (\<bar>?x\<bar> + 1) / 2 ^ 32"
    using fl by (simp add: ieee_like_def)
  also have "\<dots> \<le> 256 / 2 ^ 32" using \<open>\<bar>?x\<bar> \<le> 255\<close> by (simp add: field_simps)
  also have "\<dots> < 1 / 2" by simp
  finally have "\<bar>fl ?x - ?x\<bar> < 1 / 2" .
  then have c1: "fl ?x - ?x < 1 / 2" and c2: "?x - fl ?x < 1 / 2" by linarith+
  have "\<lfloor>fl ?x + 1 / 2\<rfloor> = n"
    using c1 c2 by (intro floor_unique) linarith+
  then show ?thesis by (simp add: Math_round_def)
qed

lemma ieee_like_exact: "ieee_like (\<lambda>x. x)"
  by (simp add: ieee_like_def)

text \<open>The 32-bit shifts and ors of the packing never wrap: on 5-, 6- and 5-bit fields
  they agree with the same operations on unbounded integers, and the result fits 16 bits.\<close>

lemma pack_no_wrap:
  fixes r g b :: int
  assumes "0 \<le> r" "r < 32" "0 \<le> g" "g < 64" "0 \<le> b" "b < 32"
  shows "sint (push_bit 11 (word_of_int r :: 32 word) OR push_bit 5 (word_of_int g) OR word_of_int b)
         = push_bit 11 r OR push_bit 5 g OR b"
    and "0 \<le> push_bit 11 r OR push_bit 5 g OR b"
    and "push_bit 11 r OR push_bit 5 g OR b < 65536"
proof -
  define x where "x = push_bit 11 r OR push_bit 5 g OR b"
  have r16: "push_bit 11 r < 2 ^ 16" using assms by (simp add: push_bit_eq_mult)
  have g16: "push_bit 5 g < 2 ^ 16" using assms by (simp add: push_bit_eq_mult)
  have b16: "b < 2 ^ 16" using assms by simp
  have nonneg: "0 \<le> x" unfolding x_def using assms by simp
  have "x < 2 ^ 16"
    unfolding x_def using assms r16 g16 b16 by (intro OR_upper) simp_all
  then have lt: "x < 65536" by simp
  have w: "push_bit 11 (word_of_int r :: 32 word) OR push_bit 5 (word_of_int g) OR word_of_int b
        = word_of_int x"
  proof -
    have "push_bit 11 (word_of_int r :: 32 word) = word_of_int (push_bit 11 r)"
      and "push_bit 5 (word_of_int g :: 32 word) = word_of_int (push_bit 5 g)"
      by (simp_all add: push_bit_eq_mult wi_hom_mult [symmetric])
    then show ?thesis by (simp add: word_wi_log_defs x_def)
  qed
  have "- (2 ^ 31) \<le> x" "x < 2 ^ 31" using nonneg lt by simp_all
  then have "signed_take_bit 31 x = x" by (rule signed_take_bit_int_eq_self)
  then have "sint (word_of_int x :: 32 word) = x" by (simp add: sint_sbintrunc')
  with w show "sint (push_bit 11 (word_of_int r :: 32 word) OR push_bit 5 (word_of_int g) OR word_of_int b)
         = push_bit 11 r OR push_bit 5 g OR b"
    by (simp add: x_def)
  show "0 \<le> push_bit 11 r OR push_bit 5 g OR b" using nonneg by (simp only: x_def)
  show "push_bit 11 r OR push_bit 5 g OR b < 65536" using lt by (simp only: x_def)
qed

subsection \<open>Hexadecimal printing and parsing\<close>

lemma digits16_small: "n < 16 \<Longrightarrow> digits16 n = [hex_char n]"
  by (simp add: digits16.simps)

lemma digits16_big: "16 \<le> n \<Longrightarrow> digits16 n = digits16 (n div 16) @ [hex_char (n mod 16)]"
  by (subst digits16.simps) simp

lemma lt16_cases:
  "(d::nat) < 16 \<Longrightarrow> d \<in> {0, 1, 2, 3, 4, 5, 6, 7, 8, 9, 10, 11, 12, 13, 14, 15}"
  by simp arith

lemma upper_hex_char: "d < 16 \<Longrightarrow> toUpperCase_char (hex_char d) = HEX_char d"
  by (drule lt16_cases)
     (auto simp: toUpperCase_char_def hex_char_def HEX_char_def is_lower_def char_code_def char_of_eq_iff)

lemma HEX_char_is_HEX_digit: "d < 16 \<Longrightarrow> is_HEX_digit (HEX_char d)"
  by (drule lt16_cases) (auto simp: HEX_char_def is_HEX_digit_def is_digit_def char_code_def)

lemma padStart4:
  "padStart 4 c [x] = [c, c, c, x]"
  "padStart 4 c [y, x] = [c, c, y, x]"
  "padStart 4 c [z, y, x] = [c, z, y, x]"
  "padStart 4 c [w, z, y, x] = [w, z, y, x]"
  by (simp_all add: padStart_def numeral_eq_Suc)

lemma digits16_4:
  assumes "v < 65536"
  shows "padStart 4 (CHR ''0'') (map toUpperCase_char (digits16 v))
         = [HEX_char (v div 4096 mod 16), HEX_char (v div 256 mod 16), HEX_char (v div 16 mod 16), HEX_char (v mod 16)]"
proof -
  have z: "HEX_char 0 = CHR ''0''" by (simp add: HEX_char_def)
  consider "v < 16" | "16 \<le> v" "v < 256" | "256 \<le> v" "v < 4096" | "4096 \<le> v"
    by linarith
  then show ?thesis
  proof cases
    case 1
    then show ?thesis
      by (simp add: digits16_small padStart4 upper_hex_char z)
  next
    case 2
    then have "v div 16 < 16" by simp
    with 2 show ?thesis
      by (simp add: digits16_small digits16_big padStart4 upper_hex_char z)
  next
    case 3
    then have a: "16 \<le> v" "16 \<le> v div 16" "v div 16 div 16 < 16" by simp_all
    have b: "v div 16 div 16 = v div 256" by (simp add: div_mult2_eq[symmetric])
    from 3 a show ?thesis
      by (simp add: digits16_small digits16_big padStart4 upper_hex_char z b)
  next
    case 4
    then have a: "16 \<le> v" "16 \<le> v div 16" "16 \<le> v div 16 div 16" "v div 16 div 16 div 16 < 16"
      using assms by simp_all
    have b: "v div 16 div 16 = v div 256" "v div 256 div 16 = v div 4096"
      by (simp_all add: div_mult2_eq[symmetric])
    from 4 a show ?thesis
      by (simp add: digits16_small digits16_big padStart4 upper_hex_char z b)
  qed
qed

lemma format_hex4:
  assumes "0 \<le> i" "i < 65536"
  shows "padStart 4 (CHR ''0'') (toUpperCase (toString16 i)) = hex4_upper i"
proof -
  have "nat i < 65536" using assms by simp
  from digits16_4[OF this] assms show ?thesis
    by (simp add: toString16_def toUpperCase_def hex4_upper_def nat_div_distrib nat_mod_distrib)
qed

lemma hex_digit_val_lt: "is_hex_digit c \<Longrightarrow> hex_digit_val c < 16"
  by (auto simp: is_hex_digit_def hex_digit_val_def is_digit_def)

lemma parseInt16_pair: "parseInt16 [a, b] = 16 * hex_digit_val a + hex_digit_val b"
  by (simp add: parseInt16_def)

lemma parseInt16_byte:
  assumes "length g = 2" "list_all is_hex_digit g"
  shows "parseInt16 g \<le> 255"
proof -
  obtain a b where g: "g = [a, b]"
    using assms(1) by (auto simp: length_Suc_conv numeral_2_eq_2)
  with assms(2) have "hex_digit_val a < 16" "hex_digit_val b < 16"
    by (simp_all add: hex_digit_val_lt)
  then show ?thesis unfolding g parseInt16_pair by linarith
qed

subsection \<open>The hex pattern and the RGB565 conversion\<close>

lemma hex_regex_exec_strip: "hex_regex_exec s = hex_groups (strip_hash s)"
  by (cases s) (auto simp: strip_hash_def hex_groups_def is_hex_digit_def is_digit_def char_code_def)

lemma hex_regex_exec_None: "hex_regex_exec s = None \<longleftrightarrow> \<not> rrggbb_opt_hash s"
  by (simp add: hex_regex_exec_strip hex_groups_def rrggbb_opt_hash_def six_hex_digits_def)

lemma hex_groups_valid:
  assumes "six_hex_digits ds"
  shows "hex_groups ds = Some (take 2 ds, take 2 (drop 2 ds), drop 4 ds)"
    and "channel 0 ds \<le> 255" "channel 1 ds \<le> 255" "channel 2 ds \<le> 255"
    and "parseInt16 (take 2 ds) = channel 0 ds"
    and "parseInt16 (take 2 (drop 2 ds)) = channel 1 ds"
    and "parseInt16 (drop 4 ds) = channel 2 ds"
proof -
  from assms have len: "length ds = 6" and all: "list_all is_hex_digit ds"
    by (simp_all add: six_hex_digits_def)
  show "hex_groups ds = Some (take 2 ds, take 2 (drop 2 ds), drop 4 ds)"
    using assms by (simp add: hex_groups_def six_hex_digits_def)
  have sub: "list_all is_hex_digit (take 2 (drop k ds))" for k
    using all by (auto simp: list_all_iff dest: in_set_takeD in_set_dropD)
  have len2: "length (take 2 (drop k ds)) = 2" if "k \<le> 4" for k
    using len that by simp
  show "channel 0 ds \<le> 255" "channel 1 ds \<le> 255" "channel 2 ds \<le> 255"
    unfolding channel_def by (rule parseInt16_byte[OF len2 sub], simp)+
  show "parseInt16 (take 2 ds) = channel 0 ds"
    and "parseInt16 (take 2 (drop 2 ds)) = channel 1 ds"
    and "parseInt16 (drop 4 ds) = channel 2 ds"
    using len by (simp_all add: channel_def)
qed

lemma hexToRgb565_valid:
  assumes fl: "ieee_like fl" and ds: "six_hex_digits (strip_hash s)"
  shows "hexToRgb565 fl s =
         ''0x'' @ hex4_upper (rgb565_spec (channel 0 (strip_hash s)) (channel 1 (strip_hash s))
                                          (channel 2 (strip_hash s)))"
proof -
  define R where "R = channel 0 (strip_hash s)"
  define G where "G = channel 1 (strip_hash s)"
  define B where "B = channel 2 (strip_hash s)"
  note v = hex_groups_valid[OF ds, folded R_def G_def B_def]
  define r5 where "r5 = int ((2 * (R * 31) + 255) div 510)"
  define g6 where "g6 = int ((2 * (G * 63) + 255) div 510)"
  define b5 where "b5 = int ((2 * (B * 31) + 255) div 510)"
  have Rb: "R * 31 \<le> 255 * 63" and Gb: "G * 63 \<le> 255 * 63" and Bb: "B * 31 \<le> 255 * 63"
    using v(2-4) by simp_all
  have mr: "Math_round (fl (of_nat (R * 31) / 255)) = r5"
    and mg: "Math_round (fl (of_nat (G * 63) / 255)) = g6"
    and mb: "Math_round (fl (of_nat (B * 31) / 255)) = b5"
    unfolding r5_def g6_def b5_def
    by (rule round_quot255(1)[OF fl Rb] round_quot255(1)[OF fl Gb] round_quot255(1)[OF fl Bb])+
  have sr: "round (of_nat R * 31 / 255 :: rat) = r5"
    and sg: "round (of_nat G * 63 / 255 :: rat) = g6"
    and sb: "round (of_nat B * 31 / 255 :: rat) = b5"
    unfolding r5_def g6_def b5_def
    using round_quot255(2)[OF fl Rb] round_quot255(2)[OF fl Gb] round_quot255(2)[OF fl Bb]
    by simp_all
  have rng: "0 \<le> r5" "r5 < 32" "0 \<le> g6" "g6 < 64" "0 \<le> b5" "b5 < 32"
    unfolding r5_def g6_def b5_def using v(2-4) by simp_all
  note p = pack_no_wrap[OF rng]
  have "hexToRgb565 fl s =
        ''0x'' @ padStart 4 (CHR ''0'') (toUpperCase (toString16 (push_bit 11 r5 OR push_bit 5 g6 OR b5)))"
    by (simp add: hexToRgb565_def hex_regex_exec_strip v(1) v(5-7) mr mg mb p(1) Let_def
             del: of_nat_mult)
  also have "\<dots> = ''0x'' @ hex4_upper (push_bit 11 r5 OR push_bit 5 g6 OR b5)"
    using format_hex4[OF p(2) p(3)] by simp
  finally show ?thesis
    unfolding rgb565_spec_def R_def[symmetric] G_def[symmetric] B_def[symmetric] sr sg sb .
qed

lemma Math_round_eq_round: "Math_round x = round x"
  by (simp add: Math_round_def round_def)

lemma rgb565_spec_div:
  assumes "R \<le> 255" "G \<le> 255" "B \<le> 255"
  shows "rgb565_spec R G B =
         push_bit 11 (int ((62 * R + 255) div 510))
         OR push_bit 5 (int ((126 * G + 255) div 510))
         OR int ((62 * B + 255) div 510)"
proof -
  have "R * 31 \<le> 255 * 63" "G * 63 \<le> 255 * 63" "B * 31 \<le> 255 * 63"
    using assms by simp_all
  from this[THEN round_quot255(2)[OF ieee_like_exact]]
  have "round (of_nat R * 31 / 255 :: rat) = int ((62 * R + 255) div 510)"
    "round (of_nat G * 63 / 255 :: rat) = int ((126 * G + 255) div 510)"
    "round (of_nat B * 31 / 255 :: rat) = int ((62 * B + 255) div 510)"
    by simp_all
  then show ?thesis unfolding rgb565_spec_def by (simp only:)
qed

lemmas codec_eval =
  rrggbb_opt_hash_def rrggbb_strict_def six_hex_digits_def strip_hash_def channel_def
  parseInt16_def hex_digit_val_def is_hex_digit_def is_digit_def char_code_def
  hex4_upper_def hex2_upper_def HEX_char_def

lemma hexToRgb565_invalid: "\<not> rrggbb_opt_hash s \<Longrightarrow> hexToRgb565 fl s = ''0x0000''"
  using hex_regex_exec_None[of s] by (simp add: hexToRgb565_def)

lemma hexToRgb_invalid: "\<not> rrggbb_opt_hash s \<Longrightarrow> hexToRgb fl s = (0, 0, 0)"
  using hex_regex_exec_None[of s] by (simp add: hexToRgb_def)

lemma hexToRgb_valid:
  assumes "six_hex_digits (strip_hash s)"
  shows "hexToRgb fl s =
         (fl (of_nat (channel 0 (strip_hash s)) / 255),
          fl (of_nat (channel 1 (strip_hash s)) / 255),
          fl (of_nat (channel 2 (strip_hash s)) / 255))"
  using hex_groups_valid(1,5,6,7)[OF assms] by (simp add: hexToRgb_def hex_regex_exec_strip)

lemma strip_hash_digits: "six_hex_digits ds \<Longrightarrow> strip_hash ds = ds"
  by (cases ds) (auto simp: six_hex_digits_def strip_hash_def is_hex_digit_def is_digit_def char_code_def)

lemma strip_hash_Cons: "strip_hash (CHR ''#'' # ds) = ds"
  by (simp add: strip_hash_def)

text \<open>
  Claim C1, amended. \<open>hexToRgb565\<close> is a total function of its input string. On six hex
  digits, with or without a leading \<open>#\<close>, it parses the three 8-bit channels, rescales
  them with exact rounding (\<open>R5 = round (R * 31 / 255)\<close>, \<open>G6 = round (G * 63 / 255)\<close>,
  \<open>B5 = round (B * 31 / 255)\<close>), packs \<open>(R5 << 11) | (G6 << 5) | B5\<close> and prints the 16-bit
  value as \<open>0x\<close> and four upper-case hex digits; on every other string it returns
  \<open>0x0000\<close>. The floating-point division and the 32-bit bit operations of the code never
  disturb the result. The four examples of the specification hold.
\<close>

theorem hexToRgb565_optional_hash_correct:
  assumes "ieee_like fl"
  shows "hexToRgb565 fl s =
           (if rrggbb_opt_hash s
            then ''0x'' @ hex4_upper (rgb565_spec (channel 0 (strip_hash s))
                                                  (channel 1 (strip_hash s))
                                                  (channel 2 (strip_hash s)))
            else ''0x0000'')
         \<and> hexToRgb565 fl ''#FF0000'' = ''0xF800''
         \<and> hexToRgb565 fl ''#00FF00'' = ''0x07E0''
         \<and> hexToRgb565 fl ''#0000FF'' = ''0x001F''
         \<and> hexToRgb565 fl ''not-a-color'' = ''0x0000''"
proof (intro conjI)
  show "hexToRgb565 fl s =
           (if rrggbb_opt_hash s
            then ''0x'' @ hex4_upper (rgb565_spec (channel 0 (strip_hash s))
                                                  (channel 1 (strip_hash s))
                                                  (channel 2 (strip_hash s)))
            else ''0x0000'')"
    using hexToRgb565_valid[OF assms, of s] hexToRgb565_invalid[of s fl]
    by (simp add: rrggbb_opt_hash_def)
  show "hexToRgb565 fl ''#FF0000'' = ''0xF800''"
    by (subst hexToRgb565_valid[OF assms]) (simp_all add: codec_eval rgb565_spec_div)
  show "hexToRgb565 fl ''#00FF00'' = ''0x07E0''"
    by (subst hexToRgb565_valid[OF assms]) (simp_all add: codec_eval rgb565_spec_div)
  show "hexToRgb565 fl ''#0000FF'' = ''0x001F''"
    by (subst hexToRgb565_valid[OF assms]) (simp_all add: codec_eval rgb565_spec_div)
  show "hexToRgb565 fl ''not-a-color'' = ''0x0000''"
    by (simp add: hexToRgb565_def hex_groups_def)
qed

text \<open>The theorem at exact arithmetic, on one matching and one malformed string.\<close>

theorem hexToRgb565_optional_hash_correct_witness:
  "ieee_like (\<lambda>x. x)
   \<and> rrggbb_opt_hash ''#336699'' \<and> hexToRgb565 (\<lambda>x. x) ''#336699'' = ''0x3333''
   \<and> \<not> rrggbb_opt_hash ''#33669'' \<and> hexToRgb565 (\<lambda>x. x) ''#33669'' = ''0x0000''"
  using hexToRgb565_optional_hash_correct[OF ieee_like_exact, of "''#336699''"]
        hexToRgb565_optional_hash_correct[OF ieee_like_exact, of "''#33669''"]
  by (simp add: ieee_like_exact codec_eval rgb565_spec_div)

text \<open>
  Claim C1 as stated sends every input that fails the pattern \<open>#RRGGBB\<close> to the sentinel.
  The string \<open>FF0000\<close> has no \<open>#\<close>, so it fails that pattern, and is converted all the
  same: the pattern of the code makes the \<open>#\<close> optional.
\<close>

theorem hexToRgb565_strict_pattern_counterexample:
  "\<not> rrggbb_strict ''FF0000'' \<and> hexToRgb565 (\<lambda>x. x) ''FF0000'' = ''0xF800''
   \<and> hexToRgb565 (\<lambda>x. x) ''FF0000'' \<noteq> ''0x0000''"
proof -
  have "hexToRgb565 (\<lambda>x. x) ''FF0000'' = ''0xF800''"
    by (subst hexToRgb565_valid[OF ieee_like_exact]) (simp_all add: codec_eval rgb565_spec_div)
  then show ?thesis by (simp add: rrggbb_strict_def)
qed

text \<open>
  Claim C10. For six hex digits \<open>ds\<close> without a \<open>#\<close>, \<open>hexToRgb565\<close> returns the packed
  RGB565 value of \<open>ds\<close> and \<open>hexToRgb\<close> returns its three channels over 255, exactly as they
  do for \<open>#ds\<close>. The fall-back branch of both parsers is the one where the pattern returns
  no match; for any string \<open>s\<close> that happens exactly when \<open>s\<close> is not six hex digits
  optionally preceded by \<open>#\<close>, and then the results are \<open>0x0000\<close> and black.
\<close>

theorem hex_parsers_accept_missing_hash:
  assumes "ieee_like fl" and "six_hex_digits ds"
  shows "hexToRgb565 fl ds =
           ''0x'' @ hex4_upper (rgb565_spec (channel 0 ds) (channel 1 ds) (channel 2 ds))
         \<and> hexToRgb565 fl (CHR ''#'' # ds) = hexToRgb565 fl ds
         \<and> hexToRgb fl ds =
             (fl (of_nat (channel 0 ds) / 255), fl (of_nat (channel 1 ds) / 255),
              fl (of_nat (channel 2 ds) / 255))
         \<and> hexToRgb fl (CHR ''#'' # ds) = hexToRgb fl ds
         \<and> (hex_regex_exec s = None \<longleftrightarrow> \<not> rrggbb_opt_hash s)
         \<and> (\<not> rrggbb_opt_hash s \<longrightarrow> hexToRgb565 fl s = ''0x0000'' \<and> hexToRgb fl s = (0, 0, 0))"
proof -
  note sd = strip_hash_digits[OF assms(2)]
  have a: "six_hex_digits (strip_hash ds)" "six_hex_digits (strip_hash (CHR ''#'' # ds))"
    using assms(2) by (simp_all add: sd strip_hash_Cons)
  show ?thesis
    using hexToRgb565_valid[OF assms(1) a(1)] hexToRgb565_valid[OF assms(1) a(2)]
      hexToRgb_valid[OF a(1), of fl] hexToRgb_valid[OF a(2), of fl]
      hex_regex_exec_None[of s] hexToRgb565_invalid[of s fl] hexToRgb_invalid[of s fl]
    by (simp add: sd strip_hash_Cons)
qed

text \<open>The theorem at exact arithmetic, on \<open>336699\<close> and on the five-digit \<open>33669\<close>.\<close>

theorem hex_parsers_accept_missing_hash_witness:
  "ieee_like (\<lambda>x. x) \<and> six_hex_digits ''336699''
   \<and> hexToRgb565 (\<lambda>x. x) ''336699'' = ''0x3333''
   \<and> hexToRgb565 (\<lambda>x. x) ''#336699'' = ''0x3333''
   \<and> hexToRgb (\<lambda>x. x) ''336699'' = (1 / 5, 2 / 5, 3 / 5)
   \<and> \<not> rrggbb_opt_hash ''33669''
   \<and> hexToRgb565 (\<lambda>x. x) ''33669'' = ''0x0000'' \<and> hexToRgb (\<lambda>x. x) ''33669'' = (0, 0, 0)"
proof -
  have d: "six_hex_digits ''336699''" by (simp add: codec_eval)
  show ?thesis
    using hex_parsers_accept_missing_hash[OF ieee_like_exact d, of "''33669''"]
    by (simp add: ieee_like_exact codec_eval rgb565_spec_div)
qed

subsection \<open>rgbToHex\<close>

lemma digits16_2:
  assumes "v \<le> 255"
  shows "map toUpperCase_char (let hex = digits16 v in if length hex = 1 then CHR ''0'' # hex else hex)
         = [HEX_char (v div 16 mod 16), HEX_char (v mod 16)]"
proof -
  have z: "HEX_char 0 = CHR ''0''" "toUpperCase_char CHR ''0'' = CHR ''0''"
    by (simp_all add: HEX_char_def toUpperCase_char_def is_lower_def char_code_def)
  consider "v < 16" | "16 \<le> v" by linarith
  then show ?thesis
  proof cases
    case 1
    then show ?thesis
      by (simp add: digits16_small upper_hex_char z)
  next
    case 2
    then have "v div 16 < 16" using assms by simp
    with 2 show ?thesis
      by (simp add: digits16_small digits16_big upper_hex_char)
  qed
qed

lemma toHex_byte:
  assumes "0 \<le> n" "n \<le> 255"
  shows "toUpperCase (let hex = toString16 n in if length hex = 1 then CHR ''0'' # hex else hex)
         = hex2_upper n"
proof -
  have "nat n \<le> 255" using assms by simp
  from digits16_2[OF this] assms show ?thesis
    by (simp add: toString16_def toUpperCase_def hex2_upper_def nat_div_distrib nat_mod_distrib)
qed

lemma hex2_upper_shape:
  assumes "0 \<le> n" "n \<le> 255"
  shows "length (hex2_upper n) = 2" "list_all is_HEX_digit (hex2_upper n)"
proof -
  show "length (hex2_upper n) = 2" by (simp add: hex2_upper_def)
  have "nat (n div 16 mod 16) < 16" "nat (n mod 16) < 16" by simp_all
  then show "list_all is_HEX_digit (hex2_upper n)"
    by (simp add: hex2_upper_def HEX_char_is_HEX_digit)
qed

lemma toHex_upper:
  assumes "ieee_like fl" "0 \<le> c" "c \<le> 1"
  shows "toUpperCase (toHex fl c) = hex2_upper (round (fl (c * 255)))"
    and "0 \<le> round (fl (c * 255))" "round (fl (c * 255)) \<le> 255"
proof -
  have c: "0 \<le> c * 255" "c * 255 \<le> 255" using assms by simp_all
  note r = round_scaled_range[OF assms(1) c, unfolded Math_round_eq_round]
  show "0 \<le> round (fl (c * 255))" "round (fl (c * 255)) \<le> 255" by (rule r)+
  show "toUpperCase (toHex fl c) = hex2_upper (round (fl (c * 255)))"
    using toHex_byte[OF r] by (simp add: toHex_def Math_round_eq_round)
qed

lemma rgbToHex_split:
  "rgbToHex fl r g b = CHR ''#'' # toUpperCase (toHex fl r) @ toUpperCase (toHex fl g) @ toUpperCase (toHex fl b)"
  by (simp add: rgbToHex_def toUpperCase_def toUpperCase_char_def is_lower_def char_code_def)

text \<open>
  Claim C9. For channels \<open>r\<close>, \<open>g\<close>, \<open>b\<close> in \<open>[0, 1]\<close>, \<open>rgbToHex\<close> scales each channel by
  255, rounds the scaled value to the nearest integer with ties going up (\<open>round\<close> is
  \<open>\<lfloor>x + 1 / 2\<rfloor>\<close>), obtains a byte in \<open>0..255\<close>, prints each byte as two upper-case hex
  digits and prefixes \<open>#\<close>: the result has seven characters, the first \<open>#\<close> and the other
  six upper-case hex digits. \<open>rgbToHex(1, 0, 0)\<close> is \<open>#FF0000\<close> and \<open>rgbToHex(0, 0, 0)\<close> is
  \<open>#000000\<close>, whatever the rounding of the floating-point product.
\<close>

theorem rgbToHex_shape:
  assumes "ieee_like fl" and "0 \<le> r" "r \<le> 1" and "0 \<le> g" "g \<le> 1" and "0 \<le> b" "b \<le> 1"
  shows "rgbToHex fl r g b =
           CHR ''#'' # hex2_upper (round (fl (r * 255))) @ hex2_upper (round (fl (g * 255)))
                     @ hex2_upper (round (fl (b * 255)))
         \<and> 0 \<le> round (fl (r * 255)) \<and> round (fl (r * 255)) \<le> 255
         \<and> 0 \<le> round (fl (g * 255)) \<and> round (fl (g * 255)) \<le> 255
         \<and> 0 \<le> round (fl (b * 255)) \<and> round (fl (b * 255)) \<le> 255
         \<and> length (rgbToHex fl r g b) = 7
         \<and> hd (rgbToHex fl r g b) = CHR ''#''
         \<and> list_all is_HEX_digit (tl (rgbToHex fl r g b))
         \<and> rgbToHex fl 1 0 0 = ''#FF0000''
         \<and> rgbToHex fl 0 0 0 = ''#000000''"
proof -
  note R = toHex_upper[OF assms(1) assms(2,3)]
  note G = toHex_upper[OF assms(1) assms(4,5)]
  note B = toHex_upper[OF assms(1) assms(6,7)]
  have eq: "rgbToHex fl r g b =
           CHR ''#'' # hex2_upper (round (fl (r * 255))) @ hex2_upper (round (fl (g * 255)))
                     @ hex2_upper (round (fl (b * 255)))"
    by (simp add: rgbToHex_split R(1) G(1) B(1))
  note sh = hex2_upper_shape[OF R(2,3)] hex2_upper_shape[OF G(2,3)] hex2_upper_shape[OF B(2,3)]
  have one: "Math_round (fl 255) = 255" and zero: "Math_round (fl 0) = 0"
    using round_exact_int[OF assms(1), of 255] round_exact_int[OF assms(1), of 0] by simp_all
  have ex1: "rgbToHex fl 1 0 0 = ''#FF0000''"
    by (simp add: rgbToHex_def toHex_def one zero toString16_def digits16_small digits16_big
        hex_char_def toUpperCase_def toUpperCase_char_def is_lower_def char_code_def char_of_eq_iff)
  have ex2: "rgbToHex fl 0 0 0 = ''#000000''"
    by (simp add: rgbToHex_def toHex_def one zero toString16_def digits16_small digits16_big
        hex_char_def toUpperCase_def toUpperCase_char_def is_lower_def char_code_def char_of_eq_iff)
  show ?thesis
    using R(2,3) G(2,3) B(2,3) sh ex1 ex2 unfolding eq by simp
qed

text \<open>The theorem at exact arithmetic; the green channel \<open>1 / 2\<close> scales to \<open>127.5\<close>,
  a tie, which rounds up to \<open>128\<close>.\<close>

theorem rgbToHex_shape_witness:
  "ieee_like (\<lambda>x. x) \<and> (0::rat) \<le> 1 / 5 \<and> (1 / 5 :: rat) \<le> 1 \<and> (0::rat) \<le> 1 / 2 \<and> (1 / 2 ::rat) \<le> 1
   \<and> rgbToHex (\<lambda>x. x) (1 / 5) (1 / 2) 1 = ''#3380FF''"
proof -
  have h: "(0::rat) \<le> 1 / 5" "(1 / 5 :: rat) \<le> 1" "(0::rat) \<le> 1 / 2" "(1 / 2 ::rat) \<le> 1"
     "(0::rat) \<le> 1" "(1::rat) \<le> 1"
    by simp_all
  have r: "round (51 :: rat) = 51" "round (255 / 2 :: rat) = 128" "round (255 :: rat) = 255"
    by code_simp+
  show ?thesis
    using rgbToHex_shape[OF ieee_like_exact h]
    by (simp add: ieee_like_exact r hex2_upper_def HEX_char_def)
qed

subsection \<open>What the icon pattern matches\<close>

lemma match_lit_iff:
  "match_lit lit p s = Some (q, rest) \<longleftrightarrow>
     (\<exists>t. s = t @ rest \<and> list_all2 ci_eq lit t \<and> q = (if t = [] then p else Some (last t)))"
proof (induction lit p s rule: match_lit.induct)
  case (1 p s)
  then show ?case by auto
next
  case (2 l ls p)
  then show ?case by (auto simp: list_all2_Cons1)
next
  case (3 l ls p c cs)
  show ?case
  proof (cases "ci_eq l c")
    case True
    have "(\<exists>t. c # cs = t @ rest \<and> list_all2 ci_eq (l # ls) t \<and> q = (if t = [] then p else Some (last t)))
          \<longleftrightarrow> (\<exists>t'. cs = t' @ rest \<and> list_all2 ci_eq ls t' \<and> q = (if t' = [] then Some c else Some (last t')))"
      (is "?L \<longleftrightarrow> ?R")
    proof
      assume ?L
      then obtain t where t: "c # cs = t @ rest" "list_all2 ci_eq (l # ls) t"
        "q = (if t = [] then p else Some (last t))" by blast
      from t(2) obtain c' t' where t': "t = c' # t'" "list_all2 ci_eq ls t'"
        by (auto simp: list_all2_Cons1)
      with t show ?R by (intro exI[of _ t']) auto
    next
      assume ?R
      then obtain t' where "cs = t' @ rest" "list_all2 ci_eq ls t'"
        "q = (if t' = [] then Some c else Some (last t'))" by blast
      with True show ?L by (intro exI[of _ "c # t'"]) auto
    qed
    with True 3 show ?thesis by simp
  next
    case False
    then show ?thesis by (auto simp: list_all2_Cons1)
  qed
qed

lemma upper_icon_letters:
  "toUpperCase_char CHR ''i'' = CHR ''I''" "toUpperCase_char CHR ''c'' = CHR ''C''"
  "toUpperCase_char CHR ''o'' = CHR ''O''" "toUpperCase_char CHR ''n'' = CHR ''N''"
  by (simp_all add: toUpperCase_char_def is_lower_def char_code_def char_of_eq_iff)

lemma icon_letters_word:
  "ci_eq CHR ''i'' c \<Longrightarrow> is_alnum c" "ci_eq CHR ''c'' c \<Longrightarrow> is_alnum c"
  "ci_eq CHR ''o'' c \<Longrightarrow> is_alnum c" "ci_eq CHR ''n'' c \<Longrightarrow> is_alnum c"
  by (auto simp: ci_eq_def upper_icon_letters is_alnum_def is_lower_def is_upper_def char_code_def)

lemma icon_token_props:
  assumes "is_icon_token t"
  shows "t \<noteq> []" "is_alnum (hd t)" "is_alnum (last t)" "list_all is_alnum t"
proof -
  from assms have "list_all is_alnum t \<and> t \<noteq> []"
    by (auto simp: is_icon_token_def list_all2_Cons1 icon_letters_word)
  then show "t \<noteq> []" "list_all is_alnum t" by simp_all
  then show "is_alnum (hd t)" "is_alnum (last t)"
    by (simp_all add: list_all_iff)
qed

lemma sep_or_nonword: "is_sep c \<or> \<not> is_word_char c \<longleftrightarrow> non_alnum c"
  by (auto simp: is_sep_def is_word_char_def non_alnum_def is_alnum_def is_lower_def is_upper_def
      is_digit_def is_space_def char_code_def)

lemma right_ctx_word:
  assumes "is_alnum a"
  shows "right_ctx (Some a) rest \<longleftrightarrow> rest = [] \<or> non_alnum (hd rest)"
  using assms sep_or_nonword
  by (cases rest) (auto simp: right_ctx_def word_boundary_def is_word_opt_def is_word_char_def)

lemma lit_then_right:
  assumes lit: "lit \<noteq> []" "\<And>t. list_all2 ci_eq lit t \<Longrightarrow> is_alnum (last t)"
  shows "(case match_lit lit p s of Some (q, rest) \<Rightarrow> right_ctx q rest | None \<Rightarrow> False)
         \<longleftrightarrow> (\<exists>t post. s = t @ post \<and> list_all2 ci_eq lit t \<and> (post = [] \<or> non_alnum (hd post)))"
    (is "?L \<longleftrightarrow> ?R")
proof
  assume ?L
  then obtain q rest where m: "match_lit lit p s = Some (q, rest)" and r: "right_ctx q rest"
    by (auto split: option.splits)
  from m obtain t where t: "s = t @ rest" "list_all2 ci_eq lit t" "q = (if t = [] then p else Some (last t))"
    unfolding match_lit_iff by blast
  from t(2) lit(1) have "t \<noteq> []" by auto
  with t r lit(2)[OF t(2)] show ?R by (auto simp: right_ctx_word)
next
  assume ?R
  then obtain t post where t: "s = t @ post" "list_all2 ci_eq lit t" "post = [] \<or> non_alnum (hd post)"
    by blast
  from t(2) lit(1) have ne: "t \<noteq> []" by auto
  have "match_lit lit p s = Some (Some (last t), post)"
    unfolding match_lit_iff using t ne by auto
  moreover have "right_ctx (Some (last t)) post"
    using t(3) lit(2)[OF t(2)] by (simp add: right_ctx_word)
  ultimately show ?L by simp
qed

lemma token_then_right_iff: "token_then_right p s \<longleftrightarrow> token_here s"
proof -
  have a: "list_all2 ci_eq ''ic'' t \<Longrightarrow> is_alnum (last t)" for t
    using icon_token_props(3)[of t] by (simp add: is_icon_token_def)
  have b: "list_all2 ci_eq ''icon'' t \<Longrightarrow> is_alnum (last t)" for t
    using icon_token_props(3)[of t] by (simp add: is_icon_token_def)
  show ?thesis
    unfolding token_then_right_def token_here_def is_icon_token_def
    by (subst lit_then_right[OF _ a], simp, assumption, subst lit_then_right[OF _ b], simp, assumption) blast
qed

lemma token_here_word: "token_here s \<Longrightarrow> s \<noteq> [] \<and> is_word_char (hd s)"
  using icon_token_props(1,2) by (auto simp: token_here_def is_word_char_def)

lemma icon_match_at_iff:
  "icon_match_at p s \<longleftrightarrow>
     (\<not> is_word_opt p \<and> token_here s) \<or> (\<exists>c cs. s = c # cs \<and> is_sep c \<and> token_here cs)"
proof -
  have "word_boundary p s \<longleftrightarrow> \<not> is_word_opt p" if "token_here s"
    using token_here_word[OF that] by (cases s) (auto simp: word_boundary_def is_word_opt_def)
  moreover have "\<not> is_word_opt None" by (simp add: is_word_opt_def)
  ultimately show ?thesis
    unfolding icon_match_at_def token_then_right_iff
    by (cases s) auto
qed

lemma icon_search_iff:
  "icon_search p s \<longleftrightarrow>
     (\<exists>pre rest. s = pre @ rest \<and> token_here rest
        \<and> (if pre = [] then \<not> is_word_opt p else non_alnum (last pre)))"
proof (induction s arbitrary: p)
  case Nil
  then show ?case
    using token_here_word[of "[]"] by (auto simp: icon_match_at_iff)
next
  case (Cons c cs)
  let ?R = "\<exists>pre rest. c # cs = pre @ rest \<and> token_here rest
        \<and> (if pre = [] then \<not> is_word_opt p else non_alnum (last pre))"
  have nw: "\<not> is_word_opt (Some c) \<longleftrightarrow> \<not> is_word_char c" by (simp add: is_word_opt_def)
  show ?case
  proof
    assume "icon_search p (c # cs)"
    then consider (a) "\<not> is_word_opt p" "token_here (c # cs)"
      | (b) "is_sep c" "token_here cs"
      | (c) "icon_search (Some c) cs"
      by (auto simp: icon_match_at_iff)
    then show ?R
    proof cases
      case a
      then show ?thesis by (intro exI[of _ "[]"] exI[of _ "c # cs"]) simp
    next
      case b
      then have "non_alnum c" using sep_or_nonword by blast
      with b show ?thesis by (intro exI[of _ "[c]"] exI[of _ cs]) simp
    next
      case c
      then obtain pre rest where pr: "cs = pre @ rest" "token_here rest"
        "if pre = [] then \<not> is_word_opt (Some c) else non_alnum (last pre)"
        unfolding Cons.IH by blast
      show ?thesis
      proof (cases "pre = []")
        case True
        with pr nw have "non_alnum c" using sep_or_nonword by auto
        with pr True show ?thesis by (intro exI[of _ "[c]"] exI[of _ rest]) simp
      next
        case False
        with pr show ?thesis by (intro exI[of _ "c # pre"] exI[of _ rest]) simp
      qed
    qed
  next
    assume ?R
    then obtain pre rest where pr: "c # cs = pre @ rest" "token_here rest"
      "if pre = [] then \<not> is_word_opt p else non_alnum (last pre)" by blast
    show "icon_search p (c # cs)"
    proof (cases pre)
      case Nil
      with pr have "token_here (c # cs)" "\<not> is_word_opt p" by auto
      then show ?thesis by (simp add: icon_match_at_iff)
    next
      case (Cons c' pre')
      with pr have c': "c' = c" and cs: "cs = pre' @ rest" by simp_all
      show ?thesis
      proof (cases "pre' = []")
        case True
        with pr Cons c' have "non_alnum c" by simp
        then consider "is_sep c" | "\<not> is_word_char c" using sep_or_nonword by blast
        then show ?thesis
        proof cases
          case 1
          with pr(2) cs True show ?thesis by (simp add: icon_match_at_iff)
        next
          case 2
          with pr(2) cs True have "icon_search (Some c) cs"
            unfolding Cons.IH by (intro exI[of _ "[]"] exI[of _ rest]) (simp add: nw)
          then show ?thesis by simp
        qed
      next
        case False
        with pr Cons cs have "icon_search (Some c) cs"
          unfolding Cons.IH by (intro exI[of _ pre'] exI[of _ rest]) simp
        then show ?thesis by simp
      qed
    qed
  qed
qed

lemma iconNameRegex_test_iff: "iconNameRegex_test s \<longleftrightarrow> bounded_token non_alnum s"
proof -
  have "iconNameRegex_test s \<longleftrightarrow>
        (\<exists>pre rest. s = pre @ rest \<and> token_here rest \<and> (pre = [] \<or> non_alnum (last pre)))"
  proof -
    have "(if pre = [] then \<not> is_word_opt None else X) \<longleftrightarrow> (pre = [] \<or> X)"
      for pre :: string and X
      by (simp add: is_word_opt_def)
    then show ?thesis
      unfolding iconNameRegex_test_def icon_search_iff by (simp only:)
  qed
  also have "\<dots> \<longleftrightarrow> bounded_token non_alnum s"
  proof
    assume "\<exists>pre rest. s = pre @ rest \<and> token_here rest \<and> (pre = [] \<or> non_alnum (last pre))"
    then obtain pre rest where p: "s = pre @ rest" "token_here rest" "pre = [] \<or> non_alnum (last pre)"
      by blast
    from p(2) obtain t post where t: "rest = t @ post" "is_icon_token t" "post = [] \<or> non_alnum (hd post)"
      unfolding token_here_def by blast
    show "bounded_token non_alnum s"
      unfolding bounded_token_def using p(1,3) t by blast
  next
    assume "bounded_token non_alnum s"
    then obtain pre t post where t: "s = pre @ t @ post" "is_icon_token t"
      "pre = [] \<or> non_alnum (last pre)" "post = [] \<or> non_alnum (hd post)"
      unfolding bounded_token_def by blast
    then have "token_here (t @ post)" unfolding token_here_def by blast
    with t show "\<exists>pre rest. s = pre @ rest \<and> token_here rest \<and> (pre = [] \<or> non_alnum (last pre))"
      by blast
  qed
  finally show ?thesis .
qed

lemma space_not_alnum: "is_space c \<Longrightarrow> \<not> is_alnum c"
  by (auto simp: is_space_def is_alnum_def is_lower_def is_upper_def is_digit_def)

lemma bounded_token_Cons_space:
  assumes sp: "is_space c" and b: "b c"
  shows "bounded_token b (c # cs) \<longleftrightarrow> bounded_token b cs"
proof
  assume "bounded_token b (c # cs)"
  then obtain pre t post where t: "c # cs = pre @ t @ post" "is_icon_token t"
    "pre = [] \<or> b (last pre)" "post = [] \<or> b (hd post)"
    unfolding bounded_token_def by blast
  have "pre \<noteq> []"
  proof
    assume "pre = []"
    with t(1) icon_token_props(1)[OF t(2)] have "hd t = c" by (cases t) auto
    with icon_token_props(2)[OF t(2)] space_not_alnum[OF sp] show False by simp
  qed
  then obtain pre' where pre: "pre = c # pre'" using t(1) by (cases pre) auto
  with t have "cs = pre' @ t @ post" "pre' = [] \<or> b (last pre')" by (auto split: if_splits)
  with t(2,4) show "bounded_token b cs" unfolding bounded_token_def by blast
next
  assume "bounded_token b cs"
  then obtain pre t post where t: "cs = pre @ t @ post" "is_icon_token t"
    "pre = [] \<or> b (last pre)" "post = [] \<or> b (hd post)"
    unfolding bounded_token_def by blast
  then have "c # cs = (c # pre) @ t @ post" "b (last (c # pre))" using b by auto
  with t(2,4) show "bounded_token b (c # cs)" unfolding bounded_token_def by blast
qed

lemma bounded_token_snoc_space:
  assumes sp: "is_space c" and b: "b c"
  shows "bounded_token b (cs @ [c]) \<longleftrightarrow> bounded_token b cs"
proof
  assume "bounded_token b (cs @ [c])"
  then obtain pre t post where t: "cs @ [c] = pre @ t @ post" "is_icon_token t"
    "pre = [] \<or> b (last pre)" "post = [] \<or> b (hd post)"
    unfolding bounded_token_def by blast
  have "post \<noteq> []"
  proof
    assume "post = []"
    with t(1) icon_token_props(1)[OF t(2)] have "last t = c"
      by (metis append_Nil2 last_appendR last_snoc)
    with icon_token_props(3)[OF t(2)] space_not_alnum[OF sp] show False by simp
  qed
  then obtain post' where post: "post = post' @ [c]"
    using t(1) by (metis append_assoc append_butlast_last_id last_appendR last_snoc)
  with t(1) have cs: "cs = pre @ t @ post'" by simp
  have "post' = [] \<or> b (hd post')" using t(4) post by (cases post') auto
  with t(2,3) cs show "bounded_token b cs" unfolding bounded_token_def by blast
next
  assume "bounded_token b cs"
  then obtain pre t post where t: "cs = pre @ t @ post" "is_icon_token t"
    "pre = [] \<or> b (last pre)" "post = [] \<or> b (hd post)"
    unfolding bounded_token_def by blast
  then have "cs @ [c] = pre @ t @ (post @ [c])" "b (hd (post @ [c]))" using b by (cases post; auto)+
  with t(2,3) show "bounded_token b (cs @ [c])" unfolding bounded_token_def by blast
qed

lemma bounded_token_ltrim:
  assumes "\<And>c. is_space c \<Longrightarrow> b c"
  shows "bounded_token b (dropWhile is_space s) \<longleftrightarrow> bounded_token b s"
  by (induction s) (simp_all add: bounded_token_Cons_space assms)

lemma bounded_token_rtrim:
  assumes "\<And>c. is_space c \<Longrightarrow> b c"
  shows "bounded_token b (rev (dropWhile is_space (rev s))) \<longleftrightarrow> bounded_token b s"
  by (induction s rule: rev_induct) (simp_all add: bounded_token_snoc_space assms)

lemma bounded_token_trim:
  "bounded_token non_alnum (trim s) \<longleftrightarrow> bounded_token non_alnum s"
  by (simp add: trim_def bounded_token_rtrim bounded_token_ltrim non_alnum_def space_not_alnum)

lemma match_lit_Some_iff:
  "match_lit lit p s \<noteq> None \<longleftrightarrow> (\<exists>t post. s = t @ post \<and> list_all2 ci_eq lit t)"
proof -
  have "match_lit lit p s \<noteq> None \<longleftrightarrow> (\<exists>q rest. match_lit lit p s = Some (q, rest))"
    by auto
  then show ?thesis unfolding match_lit_iff by blast
qed

lemma icon_substring_test_iff: "icon_substring_test s \<longleftrightarrow> contains_icon s"
proof (induction s)
  case Nil
  then show ?case by (auto simp: contains_icon_def list_all2_Cons1)
next
  case (Cons c cs)
  have "contains_icon (c # cs) \<longleftrightarrow>
        (\<exists>t post. c # cs = t @ post \<and> list_all2 ci_eq ''icon'' t) \<or> contains_icon cs"
    (is "?L \<longleftrightarrow> ?A \<or> ?B")
  proof
    assume ?L
    then obtain pre t post where t: "c # cs = pre @ t @ post" "list_all2 ci_eq ''icon'' t"
      unfolding contains_icon_def by blast
    show "?A \<or> ?B"
    proof (cases pre)
      case Nil
      with t show ?thesis by auto
    next
      case (Cons c' pre')
      with t have "cs = pre' @ t @ post" by simp
      with t(2) show ?thesis unfolding contains_icon_def by blast
    qed
  next
    assume "?A \<or> ?B"
    then show ?L
    proof
      assume ?A
      then obtain t post where "c # cs = [] @ t @ post" "list_all2 ci_eq ''icon'' t" by auto
      then show ?L unfolding contains_icon_def by blast
    next
      assume ?B
      then obtain pre t post where "cs = pre @ t @ post" "list_all2 ci_eq ''icon'' t"
        unfolding contains_icon_def by blast
      then have "c # cs = (c # pre) @ t @ post" by simp
      with \<open>list_all2 ci_eq ''icon'' t\<close> show ?L unfolding contains_icon_def by blast
    qed
  qed
  then show ?case
    unfolding icon_substring_test.simps match_lit_Some_iff Cons.IH by blast
qed

lemma vp_loop_iff:
  "vp_loop kvs \<longleftrightarrow> (\<exists>(k, v) \<in> set kvs. contains_icon k \<or> contains_icon v)"
  by (induction kvs rule: vp_loop.induct) (auto simp: icon_substring_test_iff)

lemma looksLikeIconByVariant_iff: "looksLikeIconByVariant mc \<longleftrightarrow> variant_mentions_icon mc"
  by (simp add: looksLikeIconByVariant_def variant_mentions_icon_def vp_loop_iff split: vp_access.splits)

lemma in_splits: "(pre, rest) \<in> set (splits s) \<longleftrightarrow> s = pre @ rest"
proof (induction s arbitrary: pre)
  case Nil
  then show ?case by auto
next
  case (Cons c cs)
  show ?case
  proof (cases pre)
    case Nil
    then show ?thesis by (auto simp: image_iff)
  next
    case (Cons c' pre')
    then show ?thesis using Cons.IH[of pre'] by (force simp: image_iff)
  qed
qed

lemma icon_token_length: "is_icon_token t \<Longrightarrow> length t = 2 \<or> length t = 4"
  by (auto simp: is_icon_token_def dest: list_all2_lengthD)

lemma bounded_token_search_iff: "bounded_token_search b s \<longleftrightarrow> bounded_token b s"
proof
  assume "bounded_token_search b s"
  then obtain pre rest t where m: "(pre, rest) \<in> set (splits s)" and p: "pre = [] \<or> b (last pre)"
    "is_icon_token t" "take (length t) rest = t"
    "drop (length t) rest = [] \<or> b (hd (drop (length t) rest))"
    unfolding bounded_token_search_def list_ex_iff by blast
  from m have s: "s = pre @ rest" by (simp only: in_splits)
  have "rest = t @ drop (length t) rest"
    using p(3) append_take_drop_id[of "length t" rest] by simp
  with s p show "bounded_token b s" unfolding bounded_token_def by blast
next
  assume "bounded_token b s"
  then obtain pre t post where t: "s = pre @ t @ post" "is_icon_token t"
    "pre = [] \<or> b (last pre)" "post = [] \<or> b (hd post)"
    unfolding bounded_token_def by blast
  have m: "(pre, t @ post) \<in> set (splits s)" using t(1) by (simp only: in_splits)
  have tk: "t = take 2 (t @ post) \<or> t = take 4 (t @ post)"
    using icon_token_length[OF t(2)] by auto
  have inner: "list_ex (\<lambda>u. is_icon_token u
              \<and> take (length u) (t @ post) = u
              \<and> (drop (length u) (t @ post) = [] \<or> b (hd (drop (length u) (t @ post)))))
             [take 2 (t @ post), take 4 (t @ post)]"
    unfolding list_ex_iff
  proof (rule bexI[of _ t])
    show "is_icon_token t \<and> take (length t) (t @ post) = t \<and>
      (drop (length t) (t @ post) = [] \<or> b (hd (drop (length t) (t @ post))))"
      using t(2,4) by simp
    show "t \<in> set [take 2 (t @ post), take 4 (t @ post)]"
      using tk by (simp only: list.set insert_iff) blast
  qed
  show "bounded_token_search b s"
    unfolding bounded_token_search_def list_ex_iff
  proof (rule bexI[OF _ m])
    show "case (pre, t @ post) of
      (pre, rest) \<Rightarrow>
        (pre = [] \<or> b (last pre)) \<and>
        (\<exists>t\<in>set [take 2 rest, take 4 rest].
            is_icon_token t \<and>
            take (length t) rest = t \<and>
            (drop (length t) rest = [] \<or> b (hd (drop (length t) rest))))"
      unfolding prod.case using t(3) inner[unfolded list_ex_iff] by (rule conjI)
  qed
qed

subsection \<open>The primary classifier\<close>

lemmas char_class_eval = is_word_char_def is_alnum_def is_lower_def is_upper_def is_digit_def
  is_sep_def is_space_def char_code_def non_alnum_def listed_boundary_def

lemmas icon_eval = iconNameRegex_test_def icon_match_at_def token_then_right_def
  right_ctx_def word_boundary_def is_word_opt_def ci_eq_def upper_icon_letters trim_def
  looksLikeIconByVariant_def Let_def char_class_eval

lemma bounded_token_Nil: "\<not> bounded_token b []"
  using icon_token_props(1) by (auto simp: bounded_token_def)

lemma isComponentAnIcon_Some:
  "isComponentAnIcon (Some mc) \<longleftrightarrow>
     iconNameRegex_test (trim (mc_name mc)) \<or> iconNameRegex_test (set_name_of mc)
     \<or> looksLikeIconByVariant mc"
  by (simp add: isComponentAnIcon_def set_name_of_def Let_def)

text \<open>
  Claim C2, amended. \<open>isComponentAnIcon\<close> returns true exactly when the token \<open>ic\<close> or
  \<open>icon\<close>, in any case, occurs in the component's own name or in the name of its variant
  set with the start of the string or a character that is not an ASCII letter or digit
  just before it, and the end of the string or such a character just after it, or when some
  variant property key or value contains \<open>icon\<close> in any case. When reading the variant
  properties throws, the result is that of the two names alone. A \<open>null\<close> component is not
  an icon. \<open>ic_close\<close> and \<open>Button/Icon\<close> are icons, \<open>iconography_panel\<close> and
  \<open>PrimaryButton\<close> are not.
\<close>

theorem isComponentAnIcon_characterisation:
  "(isComponentAnIcon (Some mc) \<longleftrightarrow>
      bounded_token non_alnum (mc_name mc) \<or> bounded_token non_alnum (set_name_of mc)
      \<or> variant_mentions_icon mc)
   \<and> (mc_variantProperties mc = VpThrows \<longrightarrow>
        (isComponentAnIcon (Some mc) \<longleftrightarrow>
           bounded_token non_alnum (mc_name mc) \<or> bounded_token non_alnum (set_name_of mc)))
   \<and> \<not> isComponentAnIcon None
   \<and> isComponentAnIcon (Some (plain_component ''ic_close''))
   \<and> isComponentAnIcon (Some (plain_component ''Button/Icon''))
   \<and> \<not> isComponentAnIcon (Some (plain_component ''iconography_panel''))
   \<and> \<not> isComponentAnIcon (Some (plain_component ''PrimaryButton''))"
proof -
  have main: "isComponentAnIcon (Some mc) \<longleftrightarrow>
      bounded_token non_alnum (mc_name mc) \<or> bounded_token non_alnum (set_name_of mc)
      \<or> variant_mentions_icon mc" for mc
    by (simp only: isComponentAnIcon_Some iconNameRegex_test_iff bounded_token_trim
        looksLikeIconByVariant_iff)
  have thr: "mc_variantProperties mc = VpThrows \<Longrightarrow> \<not> variant_mentions_icon mc"
    by (simp add: variant_mentions_icon_def)
  have ex: "isComponentAnIcon (Some (plain_component ''ic_close''))"
    "isComponentAnIcon (Some (plain_component ''Button/Icon''))"
    "\<not> isComponentAnIcon (Some (plain_component ''iconography_panel''))"
    "\<not> isComponentAnIcon (Some (plain_component ''PrimaryButton''))"
    by (simp_all add: isComponentAnIcon_Some plain_component_def set_name_of_def icon_eval)
  show ?thesis
    using main[of mc] thr ex by (auto simp: isComponentAnIcon_def)
qed

text \<open>The theorem on a component named \<open>Nav/ic-24\<close> whose variant properties throw.\<close>

theorem isComponentAnIcon_characterisation_witness:
  "isComponentAnIcon (Some ((plain_component ''Nav/ic-24'') \<lparr>mc_variantProperties := VpThrows\<rparr>))
   \<and> bounded_token non_alnum ''Nav/ic-24''"
  using isComponentAnIcon_characterisation
          [of "(plain_component ''Nav/ic-24'') \<lparr>mc_variantProperties := VpThrows\<rparr>"]
  by (simp add: isComponentAnIcon_Some plain_component_def set_name_of_def icon_eval
      bounded_token_Nil variant_mentions_icon_def)

text \<open>
  Claim C2 as stated bounds the token by the start or end of the string, an underscore, a
  hyphen or white space only, and returns false on an error reading the variant properties.
  A component named \<open>icon.close\<close>, without variant set and variant properties, has no
  token bounded that way and is classified as an icon; a component named \<open>ic_close\<close> whose
  variant properties throw is classified as an icon too.
\<close>

theorem isComponentAnIcon_listed_boundaries_counterexample:
  "isComponentAnIcon (Some (plain_component ''icon.close''))
   \<and> \<not> bounded_token listed_boundary (mc_name (plain_component ''icon.close''))
   \<and> \<not> bounded_token listed_boundary (set_name_of (plain_component ''icon.close''))
   \<and> \<not> variant_mentions_icon (plain_component ''icon.close'')
   \<and> isComponentAnIcon (Some ((plain_component ''ic_close'') \<lparr>mc_variantProperties := VpThrows\<rparr>))"
proof -
  have "\<not> bounded_token_search listed_boundary ''icon.close''"
    by (simp add: bounded_token_search_def is_icon_token_def ci_eq_def upper_icon_letters
        char_class_eval)
  then have "\<not> bounded_token listed_boundary ''icon.close''"
    by (simp only: bounded_token_search_iff not_False_eq_True)
  moreover have "isComponentAnIcon (Some (plain_component ''icon.close''))"
    "isComponentAnIcon (Some ((plain_component ''ic_close'') \<lparr>mc_variantProperties := VpThrows\<rparr>))"
    by (simp_all add: isComponentAnIcon_Some plain_component_def set_name_of_def icon_eval)
  ultimately show ?thesis
    by (simp add: plain_component_def set_name_of_def variant_mentions_icon_def bounded_token_Nil)
qed

section \<open>Reclassification\<close>

lemma reclass_loop_eq:
  "reclass_loop cs acc =
     (fst acc @ map (\<lambda>c. c\<lparr>cr_isIcon := False\<rparr>) (filter (\<lambda>c. \<not> looksIcon c) cs),
      snd acc @ map (\<lambda>c. c\<lparr>cr_isIcon := True\<rparr>) (filter looksIcon cs))"
  by (induction cs arbitrary: acc) (simp_all add: pushIcon_def pushComp_def)

lemma normalize_eq:
  "normalizeComponentIconClassification r =
     r\<lparr>a_components := map (\<lambda>c. c\<lparr>cr_isIcon := False\<rparr>)
                          (filter (\<lambda>c. \<not> looksIcon c) (a_components r @ a_icons r)),
       a_icons := map (\<lambda>c. c\<lparr>cr_isIcon := True\<rparr>)
                          (filter looksIcon (a_components r @ a_icons r))\<rparr>"
  by (simp add: normalizeComponentIconClassification_def reclass_loop_eq Let_def)

text \<open>
  Claim C8. After \<open>normalizeComponentIconClassification\<close>, every entry of the record's
  input components and icons sits in exactly one of the two output collections, with its
  \<open>isIcon\<close> flag set to its placement: entries for which the test \<open>looksIcon\<close> holds are
  in \<open>icons\<close> with the flag true, all others in \<open>components\<close> with the flag false. Hence
  no entry is in both collections, the two outputs together have as many entries as the
  two inputs, and nothing else of the record changes.
\<close>

theorem normalize_partitions:
  fixes r :: analysis
  defines "out \<equiv> normalizeComponentIconClassification r"
  defines "inputs \<equiv> a_components r @ a_icons r"
  shows "(\<forall>x \<in> set inputs.
            (looksIcon x \<longrightarrow> x\<lparr>cr_isIcon := True\<rparr> \<in> set (a_icons out)
                            \<and> x\<lparr>cr_isIcon := True\<rparr> \<notin> set (a_components out))
          \<and> (\<not> looksIcon x \<longrightarrow> x\<lparr>cr_isIcon := False\<rparr> \<in> set (a_components out)
                            \<and> x\<lparr>cr_isIcon := False\<rparr> \<notin> set (a_icons out)))
       \<and> set (a_components out) \<inter> set (a_icons out) = {}
       \<and> (\<forall>c \<in> set (a_components out). cr_isIcon c = False)
       \<and> (\<forall>c \<in> set (a_icons out). cr_isIcon c = True)
       \<and> a_components out = map (\<lambda>c. c\<lparr>cr_isIcon := False\<rparr>) (filter (\<lambda>c. \<not> looksIcon c) inputs)
       \<and> a_icons out = map (\<lambda>c. c\<lparr>cr_isIcon := True\<rparr>) (filter looksIcon inputs)
       \<and> length (a_components out) + length (a_icons out) = length inputs
       \<and> out\<lparr>a_components := a_components r, a_icons := a_icons r\<rparr> = r"
proof -
  have c: "a_components out = map (\<lambda>c. c\<lparr>cr_isIcon := False\<rparr>) (filter (\<lambda>c. \<not> looksIcon c) inputs)"
    and i: "a_icons out = map (\<lambda>c. c\<lparr>cr_isIcon := True\<rparr>) (filter looksIcon inputs)"
    unfolding out_def inputs_def by (simp_all add: normalize_eq)
  have fc: "\<forall>c \<in> set (a_components out). cr_isIcon c = False"
    and fi: "\<forall>c \<in> set (a_icons out). cr_isIcon c = True"
    unfolding c i by auto
  then have disj: "set (a_components out) \<inter> set (a_icons out) = {}" by auto
  have len: "length (a_components out) + length (a_icons out) = length inputs"
    unfolding c i by (simp add: sum_length_filter_compl add.commute)
  have place: "\<forall>x \<in> set inputs.
            (looksIcon x \<longrightarrow> x\<lparr>cr_isIcon := True\<rparr> \<in> set (a_icons out)
                            \<and> x\<lparr>cr_isIcon := True\<rparr> \<notin> set (a_components out))
          \<and> (\<not> looksIcon x \<longrightarrow> x\<lparr>cr_isIcon := False\<rparr> \<in> set (a_components out)
                            \<and> x\<lparr>cr_isIcon := False\<rparr> \<notin> set (a_icons out))"
  proof
    fix x assume x: "x \<in> set inputs"
    have a: "x\<lparr>cr_isIcon := True\<rparr> \<notin> set (a_components out)"
      and b: "x\<lparr>cr_isIcon := False\<rparr> \<notin> set (a_icons out)"
      using fc fi by auto
    have "looksIcon x \<Longrightarrow> x\<lparr>cr_isIcon := True\<rparr> \<in> set (a_icons out)"
      unfolding i using x by auto
    moreover have "\<not> looksIcon x \<Longrightarrow> x\<lparr>cr_isIcon := False\<rparr> \<in> set (a_components out)"
      unfolding c using x by auto
    ultimately show "(looksIcon x \<longrightarrow> x\<lparr>cr_isIcon := True\<rparr> \<in> set (a_icons out)
                            \<and> x\<lparr>cr_isIcon := True\<rparr> \<notin> set (a_components out))
          \<and> (\<not> looksIcon x \<longrightarrow> x\<lparr>cr_isIcon := False\<rparr> \<in> set (a_components out)
                            \<and> x\<lparr>cr_isIcon := False\<rparr> \<notin> set (a_icons out))"
      using a b by blast
  qed
  have rest: "out\<lparr>a_components := a_components r, a_icons := a_icons r\<rparr> = r"
    unfolding out_def by (simp add: normalize_eq)
  show ?thesis using place disj fc fi c i len rest by blast
qed


text \<open>The theorem on a record with two components and two icons, one of each misplaced.\<close>

lemmas looksIcon_eval = looksIcon_def js_or_def opt_str_def toLowerCase_def toLowerCase_char_def
  icon_eval

theorem normalize_partitions_witness:
  "a_components (normalizeComponentIconClassification
     (sample_analysis [sample_ref ''ic_close'' 2 False, sample_ref ''card'' 4 False]
                      [sample_ref ''badge'' 3 True, sample_ref ''panel'' 5 False] [] []))
   = [sample_ref ''card'' 4 False, sample_ref ''panel'' 5 False]
   \<and> a_icons (normalizeComponentIconClassification
     (sample_analysis [sample_ref ''ic_close'' 2 False, sample_ref ''card'' 4 False]
                      [sample_ref ''badge'' 3 True, sample_ref ''panel'' 5 False] [] []))
   = [sample_ref ''ic_close'' 2 True, sample_ref ''badge'' 3 True]"
proof -
  have n: "cr_masterName (sample_ref n k f) = n" "cr_fullName (sample_ref n k f) = n"
    "cr_name (sample_ref n k f) = None" "cr_setName (sample_ref n k f) = None"
    "cr_isIcon (sample_ref n k f) = f" for n k f
    by (simp_all add: sample_ref_def)
  have l: "looksIcon (sample_ref ''ic_close'' 2 False)" "\<not> looksIcon (sample_ref ''card'' 4 False)"
    "looksIcon (sample_ref ''badge'' 3 True)" "\<not> looksIcon (sample_ref ''panel'' 5 False)"
    by (simp_all add: n looksIcon_eval)
  have u: "(sample_ref n k f)\<lparr>cr_isIcon := g\<rparr> = sample_ref n k g" for n k f g
    by (simp add: sample_ref_def)
  note t = normalize_partitions
            [of "sample_analysis [sample_ref ''ic_close'' 2 False, sample_ref ''card'' 4 False]
                      [sample_ref ''badge'' 3 True, sample_ref ''panel'' 5 False] [] []"]
  have s: "a_components (sample_analysis cs is fs os) = cs" "a_icons (sample_analysis cs is fs os) = is"
    for cs "is" fs os by (simp_all add: sample_analysis_def)
  from t[THEN conjunct2, THEN conjunct2, THEN conjunct2, THEN conjunct2, THEN conjunct1]
       t[THEN conjunct2, THEN conjunct2, THEN conjunct2, THEN conjunct2, THEN conjunct2, THEN conjunct1]
  show ?thesis
    by (simp add: s l u)
qed

section \<open>Aggregation\<close>

lemma set_if_absent_eq: "set_if_absent m k v = (if k \<in> fst ` set m then m else m @ [(k, v)])"
  by (simp add: set_if_absent_def map_set_def map_has_def)

lemma ins_all_Nil [simp]: "ins_all [] m = m"
  by (simp add: ins_all_def)

lemma ins_all_Cons [simp]: "ins_all ((k, v) # kvs) m = ins_all kvs (set_if_absent m k v)"
  by (simp add: ins_all_def)

lemma ins_all_append: "ins_all (a @ b) m = ins_all b (ins_all a m)"
  by (simp add: ins_all_def)

lemma ins_all_distinct: "distinct (map fst m) \<Longrightarrow> distinct (map fst (ins_all kvs m))"
  by (induction kvs arbitrary: m) (auto simp: set_if_absent_eq)

lemma set_if_absent_keys: "fst ` set (set_if_absent m k v) = insert k (fst ` set m)"
  by (auto simp: set_if_absent_eq)

lemma set_if_absent_map_of:
  "map_of (set_if_absent m k v) k' =
     (case map_of m k' of Some x \<Rightarrow> Some x | None \<Rightarrow> if k' = k then Some v else None)"
proof (cases "k \<in> fst ` set m")
  case True
  then have "map_of m k \<noteq> None" by (simp add: map_of_eq_None_iff)
  with True show ?thesis by (auto simp: set_if_absent_eq split: option.splits)
next
  case False
  then have "map_of m k = None" by (simp add: map_of_eq_None_iff)
  with False show ?thesis
    by (auto simp: set_if_absent_eq map_add_def split: option.splits)
qed

lemma ins_all_map_of:
  "map_of (ins_all kvs m) k = (case map_of m k of Some v \<Rightarrow> Some v | None \<Rightarrow> map_of kvs k)"
proof (induction kvs arbitrary: m)
  case Nil
  then show ?case by (simp split: option.splits)
next
  case (Cons kv kvs)
  obtain k' v' where kv: "kv = (k', v')" by (cases kv)
  show ?case
    unfolding kv ins_all_Cons Cons.IH set_if_absent_map_of
    by (simp split: option.splits)
qed

lemma ins_all_keys: "fst ` set (ins_all kvs m) = fst ` set m \<union> fst ` set kvs"
proof (induction kvs arbitrary: m)
  case Nil
  then show ?case by simp
next
  case (Cons kv kvs)
  obtain k' v' where kv: "kv = (k', v')" by (cases kv)
  show ?case unfolding kv ins_all_Cons Cons.IH set_if_absent_keys by auto
qed

lemma map_of_find:
  assumes "\<forall>(k, v) \<in> set kvs. (k = k0) = P v"
  shows "map_of kvs k0 = find P (map snd kvs)"
  using assms
proof (induction kvs)
  case Nil
  then show ?case by simp
next
  case (Cons kv kvs)
  obtain k v where kv: "kv = (k, v)" by (cases kv)
  from Cons.prems have "(k = k0) = P v" "\<forall>(k, v) \<in> set kvs. (k = k0) = P v"
    by (simp_all add: kv)
  with Cons.IH show ?case by (auto simp: kv)
qed

lemma aggregate_comps_ins: "aggregate_comps cs m = ins_all (map (\<lambda>c. (comp_key c, c)) cs) m"
  by (induction cs arbitrary: m) simp_all

lemma aggregate_fonts_ins:
  "aggregate_fonts numStr fs m = ins_all (map (\<lambda>f. (summary_font_key numStr f, f)) fs) m"
  by (induction fs arbitrary: m) simp_all

lemma aggregate_colors_ins:
  "aggregate_colors i j cs m = ins_all (map (\<lambda>(j, c). (summary_color_key i j c, c)) (enumerate j cs)) m"
  by (induction cs arbitrary: m j) simp_all

lemma aggregate_cache_eq:
  "aggregate_cache numStr i cache g =
     \<lparr>aggregatedComponents =
        ins_all (map (\<lambda>c. (comp_key c, c))
                   (concat (map (\<lambda>(n, r). a_components (normalizeComponentIconClassification r)) cache)))
                (aggregatedComponents g),
      aggregatedIcons =
        ins_all (map (\<lambda>c. (comp_key c, c))
                   (concat (map (\<lambda>(n, r). a_icons (normalizeComponentIconClassification r)) cache)))
                (aggregatedIcons g),
      aggregatedFonts =
        ins_all (map (\<lambda>f. (summary_font_key numStr f, f)) (concat (map (\<lambda>(n, r). a_fonts r) cache)))
                (aggregatedFonts g),
      aggregatedColors = ins_all (cache_colors i cache) (aggregatedColors g)\<rparr>"
proof (induction cache arbitrary: i g)
  case Nil
  then show ?case by simp
next
  case (Cons a cache)
  obtain n r where a: "a = (n, r)" by (cases a)
  show ?case
    unfolding a aggregate_cache.simps Cons.IH
    by (simp add: aggregate_record_def Let_def aggregate_comps_ins aggregate_fonts_ins
        aggregate_colors_ins ins_all_append keyed_colors_def)
qed

lemma ins_all_from_kvs:
  assumes "(k, e) \<in> set (ins_all kvs [])"
  shows "map_of kvs k = Some e" "(k, e) \<in> set kvs"
proof -
  have "distinct (map fst (ins_all kvs []))" by (rule ins_all_distinct) simp
  with assms have "map_of (ins_all kvs []) k = Some e" by simp
  then show "map_of kvs k = Some e" by (simp add: ins_all_map_of)
  then show "(k, e) \<in> set kvs" by (rule map_of_SomeD)
qed

lemma first_wins_keyed:
  fixes key :: "'a \<Rightarrow> 'k" and xs :: "'a list"
  defines "A \<equiv> ins_all (map (\<lambda>x. (key x, x)) xs) []"
  shows "distinct (map key (map snd A))"
    and "key ` set (map snd A) = key ` set xs"
    and "\<forall>e \<in> set (map snd A). find (\<lambda>y. key y = key e) xs = Some e"
proof -
  let ?kvs = "map (\<lambda>x. (key x, x)) xs"
  have in_kvs: "k = key e \<and> map_of ?kvs k = Some e" if "(k, e) \<in> set A" for k e
    using ins_all_from_kvs[OF that[unfolded A_def]] by auto
  have mk: "map fst A = map key (map snd A)"
    using in_kvs by (auto simp: map_eq_conv)
  have "distinct (map fst A)" unfolding A_def by (rule ins_all_distinct) simp
  then show "distinct (map key (map snd A))" unfolding mk .
  have "fst ` set A = key ` set xs"
    unfolding A_def ins_all_keys by (auto simp: image_iff)
  moreover have "fst ` set A = key ` set (map snd A)"
    using mk by (metis list.set_map)
  ultimately show "key ` set (map snd A) = key ` set xs" by simp
  show "\<forall>e \<in> set (map snd A). find (\<lambda>y. key y = key e) xs = Some e"
  proof
    fix e assume "e \<in> set (map snd A)"
    then obtain k where "(k, e) \<in> set A" by auto
    from in_kvs[OF this] have m: "map_of ?kvs (key e) = Some e" by blast
    have "map_of ?kvs (key e) = find (\<lambda>y. key y = key e) (map snd ?kvs)"
      by (rule map_of_find) auto
    moreover have "map snd ?kvs = xs" by (simp add: comp_def)
    ultimately show "find (\<lambda>y. key y = key e) xs = Some e" using m by simp
  qed
qed

lemma keyed_colors_enum:
  "(k, c) \<in> set (map (\<lambda>(j, c). (summary_color_key i j c, c)) (enumerate n cs)) \<Longrightarrow>
     (cu_hex c \<noteq> [] \<and> k = HexKey (cu_hex c)) \<or> (cu_hex c = [] \<and> (\<exists>j. k = ObjKey i j))"
  by (auto simp: summary_color_key_def)

lemma cache_colors_keys:
  "(k, c) \<in> set (cache_colors i cache) \<Longrightarrow>
     (cu_hex c \<noteq> [] \<and> k = HexKey (cu_hex c)) \<or> (cu_hex c = [] \<and> (\<exists>i j. k = ObjKey i j))"
proof (induction i cache rule: cache_colors.induct)
  case (1 i)
  then show ?case by simp
next
  case (2 i frameName analysisData rest)
  from 2(2) consider "(k, c) \<in> set (keyed_colors i (a_colors analysisData))"
    | "(k, c) \<in> set (cache_colors (Suc i) rest)" by auto
  then show ?case
  proof cases
    case 1
    then show ?thesis unfolding keyed_colors_def by (blast dest: keyed_colors_enum)
  next
    case 2
    then show ?thesis using "2.IH" by blast
  qed
qed

lemma cache_colors_values: "map snd (cache_colors i cache) = cached_colors cache"
proof (induction i cache rule: cache_colors.induct)
  case (1 i)
  then show ?case by (simp add: cached_colors_def)
next
  case (2 i frameName analysisData rest)
  have "map snd (keyed_colors i cs) = cs" for cs
    unfolding keyed_colors_def by (simp add: comp_def case_prod_unfold map_snd_enumerate)
  with 2 show ?case by (simp add: cached_colors_def)
qed

lemma distinct_hex_of_keys:
  assumes "distinct (map fst A)"
    and "\<forall>(k, c) \<in> set A. cu_hex c \<noteq> [] \<longrightarrow> k = HexKey (cu_hex c)"
  shows "distinct (filter (\<lambda>h. h \<noteq> []) (map cu_hex (map snd A)))"
  using assms
proof (induction A)
  case Nil
  then show ?case by simp
next
  case (Cons a A)
  obtain k c where a: "a = (k, c)" by (cases a)
  from Cons.prems have d: "distinct (map fst A)" "k \<notin> fst ` set A"
    and ks: "\<forall>(k, c) \<in> set A. cu_hex c \<noteq> [] \<longrightarrow> k = HexKey (cu_hex c)"
    and kc: "cu_hex c \<noteq> [] \<longrightarrow> k = HexKey (cu_hex c)"
    by (auto simp: a)
  have "cu_hex c \<notin> cu_hex ` snd ` set A" if ne: "cu_hex c \<noteq> []"
  proof
    assume "cu_hex c \<in> cu_hex ` snd ` set A"
    then obtain k' c' where m: "(k', c') \<in> set A" "cu_hex c' = cu_hex c" by force
    with ks ne have "k' = HexKey (cu_hex c)" by auto
    with kc ne have "k' = k" by simp
    with m(1) d(2) show False by force
  qed
  with Cons.IH[OF d(1) ks] show ?case by (auto simp: a)
qed

lemma colors_first_wins:
  fixes cache :: "(string, analysis) jsmap"
  defines "A \<equiv> ins_all (cache_colors 0 cache) []"
  shows "distinct (filter (\<lambda>h. h \<noteq> []) (map cu_hex (map snd A)))"
    and "cu_hex ` set (map snd A) = cu_hex ` set (cached_colors cache)"
    and "\<forall>e \<in> set (map snd A). cu_hex e \<noteq> [] \<longrightarrow>
           find (\<lambda>c. cu_hex c = cu_hex e) (cached_colors cache) = Some e"
proof -
  let ?kvs = "cache_colors 0 cache"
  note ck = cache_colors_keys[of _ _ 0 cache]
  have in_kvs: "map_of ?kvs k = Some e \<and> (k, e) \<in> set ?kvs" if "(k, e) \<in> set A" for k e
    using ins_all_from_kvs[OF that[unfolded A_def]] by simp
  have dA: "distinct (map fst A)" unfolding A_def by (rule ins_all_distinct) simp
  have kA: "\<forall>(k, c) \<in> set A. cu_hex c \<noteq> [] \<longrightarrow> k = HexKey (cu_hex c)"
    using in_kvs ck by blast
  show "distinct (filter (\<lambda>h. h \<noteq> []) (map cu_hex (map snd A)))"
    by (rule distinct_hex_of_keys[OF dA kA])
  show "\<forall>e \<in> set (map snd A). cu_hex e \<noteq> [] \<longrightarrow>
           find (\<lambda>c. cu_hex c = cu_hex e) (cached_colors cache) = Some e"
  proof (intro ballI impI)
    fix e assume "e \<in> set (map snd A)" and ne: "cu_hex e \<noteq> []"
    then obtain k where kA: "(k, e) \<in> set A" by auto
    from in_kvs[OF kA] ck[of k e] ne have k: "k = HexKey (cu_hex e)" and m: "map_of ?kvs k = Some e"
      by auto
    have "map_of ?kvs (HexKey (cu_hex e)) = find (\<lambda>c. cu_hex c = cu_hex e) (map snd ?kvs)"
    proof (rule map_of_find, clarify)
      fix k' c' assume "(k', c') \<in> set ?kvs"
      from ck[OF this] ne show "(k' = HexKey (cu_hex e)) = (cu_hex c' = cu_hex e)" by auto
    qed
    with m k show "find (\<lambda>c. cu_hex c = cu_hex e) (cached_colors cache) = Some e"
      by (simp add: cache_colors_values)
  qed
  show "cu_hex ` set (map snd A) = cu_hex ` set (cached_colors cache)"
  proof (intro equalityI subsetI)
    fix h assume "h \<in> cu_hex ` set (map snd A)"
    then obtain k e where "(k, e) \<in> set A" "h = cu_hex e" by auto
    with in_kvs have "e \<in> snd ` set ?kvs" by force
    then have "e \<in> set (cached_colors cache)"
      unfolding cache_colors_values[of 0 cache, symmetric] by simp
    with \<open>h = cu_hex e\<close> show "h \<in> cu_hex ` set (cached_colors cache)" by blast
  next
    fix h assume "h \<in> cu_hex ` set (cached_colors cache)"
    then obtain c where "c \<in> set (map snd ?kvs)" "h = cu_hex c"
      unfolding cache_colors_values by auto
    then obtain k where kc: "(k, c) \<in> set ?kvs" by auto
    then have "k \<in> fst ` set A" unfolding A_def ins_all_keys by force
    then obtain e where ke: "(k, e) \<in> set A" by auto
    with in_kvs have "(k, e) \<in> set ?kvs" by blast
    from ck[OF this] ck[OF kc] have "cu_hex e = cu_hex c" by auto
    moreover from ke have "e \<in> set (map snd A)" by force
    ultimately show "h \<in> cu_hex ` set (map snd A)"
      using \<open>h = cu_hex c\<close> by (metis imageI)
  qed
qed

lemma collectSummaryData_lists:
  "s_components (collectSummaryData numStr fc cache)
     = map snd (ins_all (map (\<lambda>c. (comp_key c, c)) (reclassified_components cache)) [])"
  "s_icons (collectSummaryData numStr fc cache)
     = map snd (ins_all (map (\<lambda>c. (comp_key c, c)) (reclassified_icons cache)) [])"
  "s_colors (collectSummaryData numStr fc cache) = map snd (ins_all (cache_colors 0 cache) [])"
  by (simp_all add: collectSummaryData_def aggregate_cache_eq empty_aggregation_def Let_def
      map_values_def reclassified_components_def reclassified_icons_def)

text \<open>
  Claim C3. In the summary, components and icons each have pairwise distinct keys, where
  the key is \<open>masterName\<close> for a stand-alone entry and \<open>masterName:variantName\<close> for a
  variant; every key of an iterated entry is present; and the entry kept for a key is the
  first one with that key in iteration order (records in cache order, entries in array
  order), whole: no field of a later entry, and no sum of instance counts, enters it. The
  iterated entries are those of the reclassified records, which for records stored after
  reclassification, as the analyser stores them, are the stored entries themselves.
  Colours are keyed by their hex string alone: no two summary colours share a (non-empty)
  hex, every hex of a cached colour is present, and the colour kept for a hex is the first
  one with that hex, so a later occurrence at another opacity adds nothing.
\<close>

theorem collectSummaryData_first_wins:
  fixes cache :: "(string, analysis) jsmap" and numStr :: "number \<Rightarrow> string" and frameCount :: nat
  defines "S \<equiv> collectSummaryData numStr frameCount cache"
  defines "comps \<equiv> reclassified_components cache"
  defines "icons \<equiv> reclassified_icons cache"
  defines "cols \<equiv> cached_colors cache"
  shows "distinct (map comp_key (s_components S)) \<and> distinct (map comp_key (s_icons S))
       \<and> comp_key ` set (s_components S) = comp_key ` set comps
       \<and> comp_key ` set (s_icons S) = comp_key ` set icons
       \<and> (\<forall>e \<in> set (s_components S). find (\<lambda>y. comp_key y = comp_key e) comps = Some e)
       \<and> (\<forall>e \<in> set (s_icons S). find (\<lambda>y. comp_key y = comp_key e) icons = Some e)
       \<and> distinct (filter (\<lambda>h. h \<noteq> []) (map cu_hex (s_colors S)))
       \<and> cu_hex ` set (s_colors S) = cu_hex ` set cols
       \<and> (\<forall>e \<in> set (s_colors S). cu_hex e \<noteq> [] \<longrightarrow>
             find (\<lambda>c. cu_hex c = cu_hex e) cols = Some e)
       \<and> ((\<forall>(n, r) \<in> set cache. normalizeComponentIconClassification r = r) \<longrightarrow>
             comps = concat (map (\<lambda>(n, r). a_components r) cache)
             \<and> icons = concat (map (\<lambda>(n, r). a_icons r) cache))
       \<and> (\<forall>c. comp_key c =
             (if cr_isVariant c
              then cr_masterName c @ '':'' @ (case cr_variantName c of None \<Rightarrow> ''null'' | Some v \<Rightarrow> v)
              else cr_masterName c))"
proof -
  note c = first_wins_keyed[of comp_key comps, folded collectSummaryData_lists(1)[of numStr frameCount cache, unfolded comps_def[symmetric]], folded S_def]
  note i = first_wins_keyed[of comp_key icons, folded collectSummaryData_lists(2)[of numStr frameCount cache, unfolded icons_def[symmetric]], folded S_def]
  note k = colors_first_wins[of cache, folded collectSummaryData_lists(3)[of numStr frameCount cache], folded S_def cols_def]
  have n: "comps = concat (map (\<lambda>(n, r). a_components r) cache)
           \<and> icons = concat (map (\<lambda>(n, r). a_icons r) cache)"
    if "\<forall>(n, r) \<in> set cache. normalizeComponentIconClassification r = r"
  proof -
    from that have "map (\<lambda>(n, r). a_components (normalizeComponentIconClassification r)) cache
        = map (\<lambda>(n, r). a_components r) cache"
      "map (\<lambda>(n, r). a_icons (normalizeComponentIconClassification r)) cache
        = map (\<lambda>(n, r). a_icons r) cache"
      by (auto simp: map_eq_conv)
    then show ?thesis
      unfolding comps_def icons_def reclassified_components_def reclassified_icons_def
      by (simp only:)
  qed
  show ?thesis
    using c i k n by (simp add: comp_key_def)
qed


text \<open>
  The theorem on a cache of two stored records that both use the component \<open>card\<close> (2 and
  7 instances) and the colour \<open>#336699\<close> (opacity 1 and 0.5): the summary keeps the first
  entry of each, with instance count 2 and opacity 1.
\<close>

lemma sample_ref_looksIcon:
  "\<not> looksIcon (sample_ref ''card'' k False)"
  by (simp add: sample_ref_def looksIcon_eval)

theorem collectSummaryData_first_wins_witness:
  "normalizeComponentIconClassification
       (sample_analysis [sample_ref ''card'' 2 False] [] []
          [sample_color ''#336699'' ''0x3333'' 1 None])
     = sample_analysis [sample_ref ''card'' 2 False] [] []
          [sample_color ''#336699'' ''0x3333'' 1 None]
   \<and> normalizeComponentIconClassification
       (sample_analysis [sample_ref ''card'' 7 False] [] []
          [sample_color ''#336699'' ''0x3333'' (1 / 2) None])
     = sample_analysis [sample_ref ''card'' 7 False] [] []
          [sample_color ''#336699'' ''0x3333'' (1 / 2) None]
   \<and> s_components (collectSummaryData (\<lambda>n. []) 2
       [(''Home'', sample_analysis [sample_ref ''card'' 2 False] [] []
                     [sample_color ''#336699'' ''0x3333'' 1 None]),
        (''Settings'', sample_analysis [sample_ref ''card'' 7 False] [] []
                     [sample_color ''#336699'' ''0x3333'' (1 / 2) None])])
     = [sample_ref ''card'' 2 False]
   \<and> s_colors (collectSummaryData (\<lambda>n. []) 2
       [(''Home'', sample_analysis [sample_ref ''card'' 2 False] [] []
                     [sample_color ''#336699'' ''0x3333'' 1 None]),
        (''Settings'', sample_analysis [sample_ref ''card'' 7 False] [] []
                     [sample_color ''#336699'' ''0x3333'' (1 / 2) None])])
     = [sample_color ''#336699'' ''0x3333'' 1 None]
   \<and> reclassified_components
       [(''Home'', sample_analysis [sample_ref ''card'' 2 False] [] []
                     [sample_color ''#336699'' ''0x3333'' 1 None]),
        (''Settings'', sample_analysis [sample_ref ''card'' 7 False] [] []
                     [sample_color ''#336699'' ''0x3333'' (1 / 2) None])]
     = [sample_ref ''card'' 2 False, sample_ref ''card'' 7 False]
   \<and> distinct (map comp_key (s_components (collectSummaryData (\<lambda>n. []) 2
       [(''Home'', sample_analysis [sample_ref ''card'' 2 False] [] []
                     [sample_color ''#336699'' ''0x3333'' 1 None]),
        (''Settings'', sample_analysis [sample_ref ''card'' 7 False] [] []
                     [sample_color ''#336699'' ''0x3333'' (1 / 2) None])])))"
proof -
  let ?cache = "[(''Home'', sample_analysis [sample_ref ''card'' 2 False] [] []
                     [sample_color ''#336699'' ''0x3333'' 1 None]),
        (''Settings'', sample_analysis [sample_ref ''card'' 7 False] [] []
                     [sample_color ''#336699'' ''0x3333'' (1 / 2) None])]"
  have u: "(sample_ref n k f)\<lparr>cr_isIcon := g\<rparr> = sample_ref n k g" for n k f g
    by (simp add: sample_ref_def)
  have nrm: "normalizeComponentIconClassification (sample_analysis [sample_ref ''card'' k False] [] [] cs)
             = sample_analysis [sample_ref ''card'' k False] [] [] cs" for k cs
    by (simp add: normalize_eq sample_analysis_def sample_ref_looksIcon u)
  note t = collectSummaryData_first_wins[of "\<lambda>n. []" 2 ?cache]
  have comps: "reclassified_components ?cache = [sample_ref ''card'' 2 False, sample_ref ''card'' 7 False]"
    by (simp add: reclassified_components_def nrm) (simp add: sample_analysis_def)
  have ck: "comp_key (sample_ref n k f) = n" for n k f
    by (simp add: comp_key_def sample_ref_def)
  have c: "s_components (collectSummaryData (\<lambda>n. []) 2 ?cache) = [sample_ref ''card'' 2 False]"
    by (simp add: collectSummaryData_lists comps ck set_if_absent_eq)
  have k: "s_colors (collectSummaryData (\<lambda>n. []) 2 ?cache) = [sample_color ''#336699'' ''0x3333'' 1 None]"
    by (simp add: collectSummaryData_lists keyed_colors_def summary_color_key_def
        set_if_absent_eq sample_analysis_def sample_color_def)
  have d: "distinct (map comp_key (s_components (collectSummaryData (\<lambda>n. []) 2 ?cache)))"
    using t by (rule conjunct1)
  show ?thesis by (intro conjI nrm c k d comps)
qed

section \<open>Export encoder\<close>

lemma obj_ins_all_Nil [simp]: "obj_ins_all [] m = m"
  by (simp add: obj_ins_all_def)

lemma obj_ins_all_Cons [simp]:
  "obj_ins_all ((k, v) # kvs) m = obj_ins_all kvs (if \<not> prop_truthy m k then m(k \<mapsto> v) else m)"
  by (simp add: obj_ins_all_def)

lemma obj_ins_all_append: "obj_ins_all (a @ b) m = obj_ins_all b (obj_ins_all a m)"
  by (simp add: obj_ins_all_def)

lemma obj_ins_all_lookup:
  "obj_ins_all kvs m k =
     (case m k of Some v \<Rightarrow> Some v
      | None \<Rightarrow> if k \<in> set object_prototype_names then None else map_of kvs k)"
proof (induction kvs arbitrary: m)
  case Nil
  then show ?case by (simp split: option.splits)
next
  case (Cons kv kvs)
  obtain k' v' where kv: "kv = (k', v')" by (cases kv)
  show ?case
    unfolding kv obj_ins_all_Cons Cons.IH
    by (auto simp: prop_truthy_def split: option.splits)
qed

lemma map_of_keyed:
  "map_of (map (\<lambda>x. (key x, g x)) xs) k = map_option g (find (\<lambda>x. key x = k) xs)"
  by (induction xs) auto

lemma font_key_source_eq:
  "font_key_source numStr f =
     (if truthy (fu_styleName f) then opt_str (fu_styleName f)
      else js_or (fu_fontFamily f) ''unknown'' @ ''_'' @ js_or (fu_fontStyle f) ''regular'' @ ''_''
            @ font_size_str numStr (font_size_or_12 (fu_fontSize f)))"
  by (simp add: font_key_source_def truthy_def opt_str_def split: option.splits)

lemma color_key_source_eq:
  "color_key_source c =
     (if truthy (cu_styleName c) then opt_str (cu_styleName c)
      else replace_hash ''color_'' (js_or (cu_hex c) ''#000000''))"
  by (simp add: color_key_source_def truthy_def opt_str_def split: option.splits)

lemma export_font_eq:
  "export_font numStr f j =
     j\<lparr>typography := obj_ins_all
          [(lvglName (font_key_source numStr f), font_entry (lvglName (font_key_source numStr f)) f)]
          (typography j)\<rparr>"
  by (simp add: export_font_def font_key_source_eq font_entry_def Let_def)

lemma export_color_eq:
  "export_color fl c j =
     j\<lparr>colors := obj_ins_all
          [(lvglName (color_key_source c), color_entry fl (lvglName (color_key_source c)) c)]
          (colors j)\<rparr>"
  by (simp add: export_color_def color_key_source_eq color_entry_def Let_def)

lemma export_fonts_fold:
  "foldl (\<lambda>j f. export_font numStr f j) j fs =
     j\<lparr>typography := obj_ins_all
          (map (\<lambda>f. (lvglName (font_key_source numStr f),
                      font_entry (lvglName (font_key_source numStr f)) f)) fs)
          (typography j)\<rparr>"
proof (induction fs arbitrary: j)
  case Nil
  then show ?case by simp
next
  case (Cons f fs)
  show ?case
    unfolding foldl_Cons Cons.IH by (simp add: export_font_eq)
qed

lemma export_colors_fold:
  "foldl (\<lambda>j c. export_color fl c j) j cs =
     j\<lparr>colors := obj_ins_all
          (map (\<lambda>c. (lvglName (color_key_source c),
                      color_entry fl (lvglName (color_key_source c)) c)) cs)
          (colors j)\<rparr>"
proof (induction cs arbitrary: j)
  case Nil
  then show ?case by simp
next
  case (Cons c cs)
  show ?case
    unfolding foldl_Cons Cons.IH by (simp add: export_color_eq)
qed

lemma export_cache_fold:
  "foldl (\<lambda>j (frameName, analysisData). export_record fl numStr analysisData j) j cache =
     \<lparr>colors = obj_ins_all
          (map (\<lambda>c. (lvglName (color_key_source c),
                      color_entry fl (lvglName (color_key_source c)) c)) (cached_colors cache))
          (colors j),
      typography = obj_ins_all
          (map (\<lambda>f. (lvglName (font_key_source numStr f),
                      font_entry (lvglName (font_key_source numStr f)) f)) (cached_fonts cache))
          (typography j)\<rparr>"
proof (induction cache arbitrary: j)
  case Nil
  then show ?case by (simp add: cached_colors_def cached_fonts_def)
next
  case (Cons a cache)
  obtain n r where a: "a = (n, r)" by (cases a)
  show ?case
    unfolding a foldl_Cons prod.case Cons.IH
    by (simp add: export_fonts_fold export_colors_fold cached_colors_def cached_fonts_def
        obj_ins_all_append)
qed

lemma lower_of_upper: "is_upper c \<Longrightarrow> is_lower (toLowerCase_char c)"
  by (auto simp: toLowerCase_char_def is_upper_def is_lower_def char_code_def of_char_of)

lemma toLowerCase_char_ident:
  assumes "is_alnum c \<or> c = CHR ''_''"
  shows "is_ident_char (toLowerCase_char c)"
proof -
  consider "is_upper c" | "is_lower c" | "is_digit c" | "c = CHR ''_''"
    using assms by (auto simp: is_alnum_def)
  then show ?thesis
  proof cases
    case 1
    then show ?thesis by (simp add: is_ident_char_def lower_of_upper)
  next
    case 2
    then show ?thesis
      by (auto simp: is_ident_char_def toLowerCase_char_def is_upper_def is_lower_def)
  next
    case 3
    then show ?thesis
      by (auto simp: is_ident_char_def toLowerCase_char_def is_upper_def is_digit_def)
  next
    case 4
    then show ?thesis
      by (simp add: is_ident_char_def toLowerCase_char_def is_upper_def char_code_def)
  qed
qed

lemma collapse_runs_chars:
  assumes "list_all keeps s"
  shows "list_all (\<lambda>c. is_alnum c \<or> c = CHR ''_'') (collapse_runs f s)"
  using assms
  by (induction f s rule: collapse_runs.induct) (auto simp: keeps_def space_or_hyphen_def)

lemma lvglName_alphabet: "list_all is_ident_char (lvglName s)"
proof -
  have "list_all keeps (strip_special s)" by (simp add: strip_special_def list_all_iff)
  from collapse_runs_chars[OF this, of False] show ?thesis
    unfolding lvglName_def toLowerCase_def
    by (auto simp: list_all_iff toLowerCase_char_ident)
qed

lemma collapse_runs_in_run:
  assumes "list_all space_or_hyphen run" "b = [] \<or> \<not> space_or_hyphen (hd b)"
  shows "collapse_runs True (run @ b) = collapse_runs False b"
  using assms by (induction run) (auto, cases b, auto)

lemma collapse_runs_run:
  assumes "run \<noteq> []" "list_all space_or_hyphen run" "b = [] \<or> \<not> space_or_hyphen (hd b)"
  shows "collapse_runs False (run @ b) = CHR ''_'' # collapse_runs False b"
proof -
  obtain c run' where r: "run = c # run'" using assms(1) by (cases run) auto
  with assms(2) have "space_or_hyphen c" "list_all space_or_hyphen run'" by simp_all
  with collapse_runs_in_run[OF this(2) assms(3)] show ?thesis by (simp add: r)
qed

lemma collapse_runs_prefix:
  assumes "a \<noteq> []" "\<not> space_or_hyphen (last a)"
  shows "collapse_runs f (a @ rest) = collapse_runs f a @ collapse_runs False rest"
  using assms
proof (induction f a rule: collapse_runs.induct)
  case (1 in_run)
  then show ?case by simp
next
  case (2 in_run c cs)
  show ?case
  proof (cases "cs = []")
    case True
    with 2 show ?thesis by simp
  next
    case False
    with 2 show ?thesis by auto
  qed
qed

lemma collapse_runs_between:
  assumes "run \<noteq> []" "list_all space_or_hyphen run"
    and "a = [] \<or> \<not> space_or_hyphen (last a)" and "b = [] \<or> \<not> space_or_hyphen (hd b)"
  shows "collapse_runs False (a @ run @ b) = collapse_runs False a @ ''_'' @ collapse_runs False b"
proof (cases "a = []")
  case True
  then show ?thesis using collapse_runs_run[OF assms(1,2,4)] by simp
next
  case False
  with assms(3) have "\<not> space_or_hyphen (last a)" by simp
  from collapse_runs_prefix[OF False this, of False "run @ b"] collapse_runs_run[OF assms(1,2,4)]
  show ?thesis by simp
qed

lemma collapse_runs_plain:
  "\<not> list_ex space_or_hyphen s \<Longrightarrow> collapse_runs f s = s"
  by (induction f s rule: collapse_runs.induct) auto

lemma map_of_keyed_entry:
  "map_of (map (\<lambda>x. (key x, g (key x) x)) xs) k = map_option (g k) (find (\<lambda>x. key x = k) xs)"
  by (induction xs) auto

lemma generateLVGLJson_maps:
  "typography (generateLVGLJson fl numStr cache) k =
     (if k \<in> set object_prototype_names then None
      else map_option (font_entry k)
             (find (\<lambda>f. lvglName (font_key_source numStr f) = k) (cached_fonts cache)))"
  "colors (generateLVGLJson fl numStr cache) k =
     (if k \<in> set object_prototype_names then None
      else map_option (color_entry fl k)
             (find (\<lambda>c. lvglName (color_key_source c) = k) (cached_colors cache)))"
  unfolding generateLVGLJson_def export_cache_fold
  using map_of_keyed_entry[of "\<lambda>f. lvglName (font_key_source numStr f)" font_entry "cached_fonts cache" k]
    map_of_keyed_entry[of "\<lambda>c. lvglName (color_key_source c)" "color_entry fl" "cached_colors cache" k]
  by (simp_all add: obj_ins_all_lookup)

lemmas lvglName_eval = lvglName_def strip_special_def keeps_def space_or_hyphen_def toLowerCase_def
  toLowerCase_char_def is_alnum_def is_lower_def is_upper_def is_digit_def is_space_def
  char_code_def char_of_eq_iff

lemma lvglName_examples:
  "lvglName ''Primary Color'' = ''primary_color''" "lvglName ''primary-color'' = ''primary_color''"
  by (simp_all add: lvglName_eval)

lemma color_key_led:
  "cu_hex c = CHR ''#'' # ds \<Longrightarrow> \<not> truthy (cu_styleName c) \<Longrightarrow> color_key_source c = ''color_'' @ ds"
  by (simp add: color_key_source_eq js_or_def)

lemma color_entry_led:
  "cu_hex c = CHR ''#'' # ds \<Longrightarrow> lvgl_color (color_entry fl k c) = ''lv_color_hex(0x'' @ ds @ '')''"
  by (simp add: color_entry_def js_or_def)

lemma lvglName_color_example: "lvglName ''color_FF0000'' = ''color_ff0000''"
  by (simp add: lvglName_eval)

text \<open>
  What the encoder writes under the keys a plain object does not inherit. The typography
  entry under such a key \<open>k\<close> is the entry of the first cached font (records in cache order,
  fonts in array order) whose key is \<open>k\<close>, and there is none when no font has that key;
  likewise for colours. Later entries with the same key are dropped: nothing of them is
  merged in and nothing fails. The key of an entry is the identifier made from its style
  name when it has one, and otherwise from \<open>family_style_size\<close> (fonts) or from \<open>color_\<close>
  followed by the digits of the hex (colours). The identifier keeps letters, digits,
  underscores, hyphens and white space (the class \<open>\s\<close>), replaces every maximal run of white
  space and hyphens by one underscore, and lower-cases; it consists of lower-case letters,
  digits and underscores only.
\<close>

lemma generateLVGLJson_own_keys:
  "typography (generateLVGLJson fl numStr cache) k =
     (if k \<in> set object_prototype_names then None
      else map_option (font_entry k)
             (find (\<lambda>f. lvglName (font_key_source numStr f) = k) (cached_fonts cache)))
   \<and> colors (generateLVGLJson fl numStr cache) k =
     (if k \<in> set object_prototype_names then None
      else map_option (color_entry fl k)
             (find (\<lambda>c. lvglName (color_key_source c) = k) (cached_colors cache)))
   \<and> (truthy (cu_styleName c) \<longrightarrow> color_key_source c = opt_str (cu_styleName c))
   \<and> (\<not> truthy (cu_styleName c) \<and> cu_hex c = CHR ''#'' # ds \<longrightarrow> color_key_source c = ''color_'' @ ds)
   \<and> (cu_hex c = CHR ''#'' # ds \<longrightarrow> lvgl_color (color_entry fl k c) = ''lv_color_hex(0x'' @ ds @ '')'')
   \<and> (truthy (fu_styleName f) \<longrightarrow> font_key_source numStr f = opt_str (fu_styleName f))
   \<and> (\<not> truthy (fu_styleName f) \<and> fu_fontFamily f \<noteq> [] \<and> fu_fontStyle f \<noteq> [] \<longrightarrow>
        font_key_source numStr f
          = fu_fontFamily f @ ''_'' @ fu_fontStyle f @ ''_'' @ font_size_str numStr (font_size_or_12 (fu_fontSize f)))
   \<and> lvglName s =
       toLowerCase (collapse_runs False
         (filter (\<lambda>c. is_alnum c \<or> c = CHR ''_'' \<or> is_space c \<or> c = CHR ''-'') s))
   \<and> list_all is_ident_char (lvglName s)
   \<and> (run \<noteq> [] \<and> list_all space_or_hyphen run
        \<and> (a = [] \<or> \<not> space_or_hyphen (last a)) \<and> (b = [] \<or> \<not> space_or_hyphen (hd b))
        \<longrightarrow> collapse_runs False (a @ run @ b)
            = collapse_runs False a @ ''_'' @ collapse_runs False b)
   \<and> (\<not> list_ex space_or_hyphen s \<longrightarrow> collapse_runs False s = s)
   \<and> lvglName ''Primary Color'' = ''primary_color''
   \<and> lvglName ''primary-color'' = ''primary_color''
   \<and> lvglName ''color_FF0000'' = ''color_ff0000''"
proof -
  have d: "lvglName s =
       toLowerCase (collapse_runs False
         (filter (\<lambda>c. is_alnum c \<or> c = CHR ''_'' \<or> is_space c \<or> c = CHR ''-'') s))"
    by (simp add: lvglName_def strip_special_def keeps_def[abs_def])
  have r: "run \<noteq> [] \<and> list_all space_or_hyphen run
        \<and> (a = [] \<or> \<not> space_or_hyphen (last a)) \<and> (b = [] \<or> \<not> space_or_hyphen (hd b))
        \<longrightarrow> collapse_runs False (a @ run @ b)
            = collapse_runs False a @ ''_'' @ collapse_runs False b"
    using collapse_runs_between[of run a b] by blast
  have p: "\<not> list_ex space_or_hyphen s \<longrightarrow> collapse_runs False s = s"
    using collapse_runs_plain[of s False] by blast
  have k1: "truthy (cu_styleName c) \<longrightarrow> color_key_source c = opt_str (cu_styleName c)"
    by (simp add: color_key_source_eq)
  have k2: "\<not> truthy (cu_styleName c) \<and> cu_hex c = CHR ''#'' # ds \<longrightarrow> color_key_source c = ''color_'' @ ds"
    using color_key_led[of c ds] by blast
  have k3: "truthy (fu_styleName f) \<longrightarrow> font_key_source numStr f = opt_str (fu_styleName f)"
    by (simp add: font_key_source_eq)
  have k4: "\<not> truthy (fu_styleName f) \<and> fu_fontFamily f \<noteq> [] \<and> fu_fontStyle f \<noteq> [] \<longrightarrow>
        font_key_source numStr f
          = fu_fontFamily f @ ''_'' @ fu_fontStyle f @ ''_'' @ font_size_str numStr (font_size_or_12 (fu_fontSize f))"
    by (simp add: font_key_source_eq js_or_def)
  have k5: "cu_hex c = CHR ''#'' # ds \<longrightarrow> lvgl_color (color_entry fl k c) = ''lv_color_hex(0x'' @ ds @ '')''"
    using color_entry_led[of c ds fl k] by blast
  show ?thesis
    by (intro conjI generateLVGLJson_maps d lvglName_alphabet r p lvglName_examples k1 k2 k3 k4 k5
        lvglName_color_example)
qed

text \<open>On a record with two colours styled \<open>Primary Color\<close> and \<open>primary-color\<close>, the entry
  \<open>primary_color\<close> is that of the first, with hex \<open>#112233\<close>.\<close>

lemma generateLVGLJson_collision_example:
  "colors (generateLVGLJson (\<lambda>x. x) (\<lambda>n. [])
      [(''Home'', sample_analysis [] [] []
          [sample_color ''#112233'' ''0x1106'' 1 (Some ''Primary Color''),
           sample_color ''#445566'' ''0x42AC'' 1 (Some ''primary-color'')])]) ''primary_color''
   = Some (color_entry (\<lambda>x. x) ''primary_color''
             (sample_color ''#112233'' ''0x1106'' 1 (Some ''Primary Color'')))
   \<and> c_hex (color_entry (\<lambda>x. x) ''primary_color''
             (sample_color ''#112233'' ''0x1106'' 1 (Some ''Primary Color''))) = ''#112233''"
proof -
  let ?c1 = "sample_color ''#112233'' ''0x1106'' 1 (Some ''Primary Color'')"
  let ?c2 = "sample_color ''#445566'' ''0x42AC'' 1 (Some ''primary-color'')"
  let ?cache = "[(''Home'', sample_analysis [] [] [] [?c1, ?c2])]"
  have ks: "color_key_source ?c1 = ''Primary Color''" "color_key_source ?c2 = ''primary-color''"
    by (simp_all add: color_key_source_def sample_color_def)
  have cc: "cached_colors ?cache = [?c1, ?c2]"
    by (simp add: cached_colors_def sample_analysis_def)
  have np: "''primary_color'' \<notin> set object_prototype_names"
    by (simp add: object_prototype_names_def)
  note t = generateLVGLJson_maps(2)[of "\<lambda>x. x" "\<lambda>n. []" ?cache "''primary_color''"]
  have "colors (generateLVGLJson (\<lambda>x. x) (\<lambda>n. []) ?cache) ''primary_color''
        = Some (color_entry (\<lambda>x. x) ''primary_color'' ?c1)"
    unfolding t cc using np by (simp add: ks lvglName_examples)
  moreover have "c_hex (color_entry (\<lambda>x. x) ''primary_color'' ?c1) = ''#112233''"
    by (simp add: color_entry_def sample_color_def js_or_def)
  ultimately show ?thesis by (rule conjI)
qed

lemma lvglName_style_examples:
  "lvglName ''Constructor'' = ''constructor''" "lvglName ''Heading'' = ''heading''"
  by (simp_all add: lvglName_eval)

text \<open>
  Claim C4. The claim has the first entry written under a key win. The encoder tests
  \<open>!jsonData.typography[lvglName]\<close> on a plain object, and the read goes through the
  prototype chain: under the key \<open>constructor\<close> it finds the inherited function, so an
  entry with that key is never written. A cache whose only font carries the text style
  \<open>Constructor\<close> has the key \<open>constructor\<close> and yields a typography map without any entry:
  the first and only entry of the key is lost. With the style \<open>Heading\<close> the same font is
  written under \<open>heading\<close>.
\<close>

theorem generateLVGLJson_inherited_key_lost:
  "lvglName (font_key_source (\<lambda>n. ''24'') (sample_font ''Inter'' ''Bold'' (Px 24) (Some ''Constructor'')))
     = ''constructor''
   \<and> find (\<lambda>f. lvglName (font_key_source (\<lambda>n. ''24'') f) = ''constructor'')
        (cached_fonts [(''Home'', sample_analysis [] []
           [sample_font ''Inter'' ''Bold'' (Px 24) (Some ''Constructor'')] [])])
      = Some (sample_font ''Inter'' ''Bold'' (Px 24) (Some ''Constructor''))
   \<and> typography (generateLVGLJson (\<lambda>x. x) (\<lambda>n. ''24'')
        [(''Home'', sample_analysis [] [] [sample_font ''Inter'' ''Bold'' (Px 24) (Some ''Constructor'')] [])])
        ''constructor'' = None
   \<and> dom (typography (generateLVGLJson (\<lambda>x. x) (\<lambda>n. ''24'')
        [(''Home'', sample_analysis [] [] [sample_font ''Inter'' ''Bold'' (Px 24) (Some ''Constructor'')] [])]))
      = {}
   \<and> typography (generateLVGLJson (\<lambda>x. x) (\<lambda>n. ''24'')
        [(''Home'', sample_analysis [] [] [sample_font ''Inter'' ''Bold'' (Px 24) (Some ''Heading'')] [])])
        ''heading''
      = Some (font_entry ''heading'' (sample_font ''Inter'' ''Bold'' (Px 24) (Some ''Heading'')))"
proof -
  let ?f = "sample_font ''Inter'' ''Bold'' (Px 24) (Some ''Constructor'')"
  let ?g = "sample_font ''Inter'' ''Bold'' (Px 24) (Some ''Heading'')"
  have ks: "font_key_source (\<lambda>n. ''24'') ?f = ''Constructor''" "font_key_source (\<lambda>n. ''24'') ?g = ''Heading''"
    by (simp_all add: font_key_source_def sample_font_def)
  have cf: "cached_fonts [(''Home'', sample_analysis [] [] [?f] [])] = [?f]"
    "cached_fonts [(''Home'', sample_analysis [] [] [?g] [])] = [?g]"
    by (simp_all add: cached_fonts_def sample_analysis_def)
  have a: "lvglName (font_key_source (\<lambda>n. ''24'') ?f) = ''constructor''"
    by (simp add: ks lvglName_style_examples)
  have fi: "find (\<lambda>f. lvglName (font_key_source (\<lambda>n. ''24'') f) = ''constructor'')
        (cached_fonts [(''Home'', sample_analysis [] [] [?f] [])]) = Some ?f"
    unfolding cf by (simp add: a)
  have b: "typography (generateLVGLJson (\<lambda>x. x) (\<lambda>n. ''24'') [(''Home'', sample_analysis [] [] [?f] [])]) k = None" for k
    unfolding generateLVGLJson_maps(1) cf
    by (simp add: ks lvglName_style_examples object_prototype_names_def)
  have c: "typography (generateLVGLJson (\<lambda>x. x) (\<lambda>n. ''24'') [(''Home'', sample_analysis [] [] [?g] [])]) ''heading''
      = Some (font_entry ''heading'' ?g)"
    unfolding generateLVGLJson_maps(1) cf
    by (simp add: ks lvglName_style_examples object_prototype_names_def)
  have e: "dom (typography (generateLVGLJson (\<lambda>x. x) (\<lambda>n. ''24'') [(''Home'', sample_analysis [] [] [?f] [])])) = {}"
    by (simp add: dom_def b)
  show ?thesis by (intro conjI a fi b e c)
qed

section \<open>Frame extractor\<close>

lemma resolve_font_size_ignores_gate:
  "resolve_font_size h (node\<lparr>n_visible := v, n_width := w, n_height := h'\<rparr>) = resolve_font_size h node"
  by (simp add: resolve_font_size_def split: font_size_prop.splits)

lemma steps_ignore_gate:
  "instance_step (node\<lparr>n_visible := v, n_width := w, n_height := h'\<rparr>) st = instance_step node st"
  "font_step h (node\<lparr>n_visible := v, n_width := w, n_height := h'\<rparr>) st = font_step h node st"
  "fills_step h (node\<lparr>n_visible := v, n_width := w, n_height := h'\<rparr>) st = fills_step h node st"
  "strokes_step h (node\<lparr>n_visible := v, n_width := w, n_height := h'\<rparr>) st = strokes_step h node st"
  "effect_step h (node\<lparr>n_visible := v, n_width := w, n_height := h'\<rparr>) st = effect_step h node st"
  by (simp_all add: instance_step_def font_step_def fills_step_def strokes_step_def
      effect_step_def resolve_font_size_ignores_gate
      split: access.splits option.splits font_name_prop.splits)

lemma extract_node_ignores_gate:
  "extract_node h (node\<lparr>n_visible := v, n_width := w, n_height := h'\<rparr>) st = extract_node h node st"
  by (simp add: extract_node_def steps_ignore_gate cong: flow.case_cong)

lemma sample_rect_fresh: "fresh (sample_rect i w h fills) empty_pass"
  by (simp add: fresh_def sample_rect_def empty_pass_def)

subsection \<open>The accumulation maps\<close>

lemma map_has_iff: "map_has m k \<longleftrightarrow> map_get m k \<noteq> None"
  by (simp add: map_has_def map_get_def map_of_eq_None_iff)

lemma map_of_replace:
  "map_of (map (\<lambda>(k', v'). if k' = k then (k', v) else (k', v')) m) k'' =
     (if k'' = k then (if k \<in> fst ` set m then Some v else None) else map_of m k'')"
  by (induction m) (force simp: image_iff)+

lemma map_get_map_set:
  "map_get (map_set m k v) k' = (if k' = k then Some v else map_get m k')"
proof (cases "map_has m k")
  case True
  then show ?thesis
    by (simp add: map_set_def map_get_def map_of_replace map_has_def)
next
  case False
  then have "map_of m k = None" by (simp add: map_has_def map_of_eq_None_iff)
  with False show ?thesis
    by (auto simp: map_set_def map_get_def map_add_def split: option.splits)
qed

lemma in_map_set:
  "(k', e) \<in> set (map_set m k v) \<Longrightarrow> (k', e) \<in> set m \<or> (k' = k \<and> e = v)"
  by (auto simp: map_set_def split: if_splits)

lemma map_get_in_set: "map_get m k = Some e \<Longrightarrow> (k, e) \<in> set m"
  by (simp add: map_get_def map_of_SomeD)

lemma font_kept_refl: "font_kept e e"
  by (simp add: font_kept_def)

lemma font_kept_trans: "font_kept a b \<Longrightarrow> font_kept b c \<Longrightarrow> font_kept a c"
  by (auto simp: font_kept_def)

lemma color_kept_refl: "color_kept e e"
  by (simp add: color_kept_def)

lemma color_kept_trans: "color_kept a b \<Longrightarrow> color_kept b c \<Longrightarrow> color_kept a c"
  by (auto simp: color_kept_def)

lemma upsert_font_entry:
  assumes "map_get m k = Some e"
  shows "map_get (upsert_font k' info m) k =
           Some (if k = k' \<and> truthy (fi_styleName info) \<and> \<not> truthy (fi_styleName e)
                 then e\<lparr>fi_styleName := fi_styleName info\<rparr> else e)"
  using assms by (auto simp: upsert_font_def map_has_iff map_get_map_set split: option.splits)

lemma upsert_color_entry:
  assumes "map_get m k = Some e"
  shows "map_get (upsert_color k' info m) k =
           Some (if k = k' \<and> truthy (ci_styleName info) \<and> \<not> truthy (ci_styleName e)
                 then e\<lparr>ci_styleName := ci_styleName info\<rparr> else e)"
  using assms by (auto simp: upsert_color_def map_has_iff map_get_map_set split: option.splits)

lemma upsert_font_kept:
  assumes "map_get m k = Some e"
  shows "\<exists>e'. map_get (upsert_font k' info m) k = Some e' \<and> font_kept e e'"
  unfolding upsert_font_entry[OF assms] by (auto simp: font_kept_def)

lemma upsert_color_kept:
  assumes "map_get m k = Some e"
  shows "\<exists>e'. map_get (upsert_color k' info m) k = Some e' \<and> color_kept e e'"
  unfolding upsert_color_entry[OF assms] by (auto simp: color_kept_def)

text \<open>Which maps each step touches.\<close>

lemma instance_step_maps:
  "instance_step node st = Return st' \<or> instance_step node st = Continue st' \<Longrightarrow>
     m_fonts st' = m_fonts st \<and> m_colors st' = m_colors st"
  by (auto simp: instance_step_def Let_def split: if_splits access.splits option.splits)

lemma font_step_colors: "m_colors (font_step h node st) = m_colors st"
  by (simp add: font_step_def Let_def split: font_name_prop.splits option.splits)

lemma paint_step_fonts: "m_fonts (paint_step h origin sid p st) = m_fonts st"
  by (simp add: paint_step_def Let_def split: option.splits prod.splits)

lemma paints_fold_fonts:
  "m_fonts (foldl (\<lambda>s p. paint_step h origin sid p s) st ps) = m_fonts st"
  by (induction ps arbitrary: st) (simp_all add: paint_step_fonts)

lemma fills_step_fonts: "m_fonts (fills_step h node st) = m_fonts st"
  by (simp add: fills_step_def paints_fold_fonts split: option.splits)

lemma strokes_step_fonts: "m_fonts (strokes_step h node st) = m_fonts st"
  by (simp add: strokes_step_def paints_fold_fonts split: option.splits)

lemma effect_step_maps:
  "m_fonts (effect_step h node st) = m_fonts st" "m_colors (effect_step h node st) = m_colors st"
  by (simp_all add: effect_step_def split: option.splits)

lemma font_step_kept:
  assumes "map_get (m_fonts st) k = Some e"
  shows "\<exists>e'. map_get (m_fonts (font_step h node st)) k = Some e' \<and> font_kept e e'"
proof (cases "n_fontName node")
  case (FontName family sty)
  then show ?thesis
    using assms upsert_font_kept[OF assms]
    by (auto simp: font_step_def Let_def split: option.splits)
qed (use assms in \<open>auto simp: font_step_def font_kept_refl\<close>)

lemma paint_step_kept:
  assumes "map_get (m_colors st) k = Some e"
  shows "\<exists>e'. map_get (m_colors (paint_step h origin sid p st)) k = Some e' \<and> color_kept e e'"
  using assms upsert_color_kept[OF assms]
  by (auto simp: paint_step_def Let_def color_kept_refl split: option.splits prod.splits)

lemma paints_fold_kept:
  assumes "map_get (m_colors st) k = Some e"
  shows "\<exists>e'. map_get (m_colors (foldl (\<lambda>s p. paint_step h origin sid p s) st ps)) k = Some e'
              \<and> color_kept e e'"
  using assms
proof (induction ps arbitrary: st e)
  case Nil
  then show ?case by (auto simp: color_kept_refl)
next
  case (Cons p ps)
  from paint_step_kept[OF Cons.prems, of h origin sid p]
  obtain e1 where e1: "map_get (m_colors (paint_step h origin sid p st)) k = Some e1" "color_kept e e1"
    by blast
  from Cons.IH[OF e1(1)] obtain e' where
    "map_get (m_colors (foldl (\<lambda>s p. paint_step h origin sid p s) (paint_step h origin sid p st) ps)) k = Some e'"
    "color_kept e1 e'" by blast
  with e1(2) show ?case by (auto intro: color_kept_trans)
qed

lemma fills_step_kept:
  assumes "map_get (m_colors st) k = Some e"
  shows "\<exists>e'. map_get (m_colors (fills_step h node st)) k = Some e' \<and> color_kept e e'"
  using assms paints_fold_kept[OF assms]
  by (auto simp: fills_step_def color_kept_refl split: option.splits)

lemma strokes_step_kept:
  assumes "map_get (m_colors st) k = Some e"
  shows "\<exists>e'. map_get (m_colors (strokes_step h node st)) k = Some e' \<and> color_kept e e'"
  using assms paints_fold_kept[OF assms]
  by (auto simp: strokes_step_def color_kept_refl split: option.splits)

lemma extract_node_fonts_kept:
  assumes "map_get (m_fonts st) k = Some e"
  shows "\<exists>e'. map_get (m_fonts (extract_node h node st)) k = Some e' \<and> font_kept e e'"
proof (cases "instance_step node st")
  case (Return st')
  with instance_step_maps[of node st st'] assms show ?thesis
    by (auto simp: extract_node_def font_kept_refl)
next
  case (Continue st')
  with instance_step_maps[of node st st'] assms have "map_get (m_fonts st') k = Some e" by simp
  from font_step_kept[OF this, of h node] Continue show ?thesis
    by (simp add: extract_node_def effect_step_maps strokes_step_fonts fills_step_fonts)
qed

lemma extract_node_colors_kept:
  assumes "map_get (m_colors st) k = Some e"
  shows "\<exists>e'. map_get (m_colors (extract_node h node st)) k = Some e' \<and> color_kept e e'"
proof (cases "instance_step node st")
  case (Return st')
  with instance_step_maps[of node st st'] assms show ?thesis
    by (auto simp: extract_node_def color_kept_refl)
next
  case (Continue st')
  with instance_step_maps[of node st st'] assms
  have "map_get (m_colors (font_step h node st')) k = Some e" by (simp add: font_step_colors)
  from fills_step_kept[OF this, of h node] obtain e1 where
    e1: "map_get (m_colors (fills_step h node (font_step h node st'))) k = Some e1" "color_kept e e1"
    by blast
  from strokes_step_kept[OF e1(1), of h node] obtain e2 where
    e2: "map_get (m_colors (strokes_step h node (fills_step h node (font_step h node st')))) k = Some e2"
      "color_kept e1 e2"
    by blast
  from e1 e2 Continue show ?thesis
    by (auto simp: extract_node_def effect_step_maps intro: color_kept_trans)
qed

lemma analyzeNode_kept:
  "map_get (m_fonts st) k = Some e \<Longrightarrow>
     \<exists>e'. map_get (m_fonts (analyzeNode h node st)) k = Some e' \<and> font_kept e e'"
  "map_get (m_colors st) k' = Some c \<Longrightarrow>
     \<exists>c'. map_get (m_colors (analyzeNode h node st)) k' = Some c' \<and> color_kept c c'"
proof -
  let ?st1 = "st\<lparr>processedNodes := set_add (processedNodes st) (n_id node)\<rparr>"
  assume a: "map_get (m_fonts st) k = Some e"
  then have "map_get (m_fonts ?st1) k = Some e" by simp
  from extract_node_fonts_kept[OF this, of h node] a
  show "\<exists>e'. map_get (m_fonts (analyzeNode h node st)) k = Some e' \<and> font_kept e e'"
    by (auto simp: analyzeNode_def Let_def font_kept_refl)
next
  let ?st1 = "st\<lparr>processedNodes := set_add (processedNodes st) (n_id node)\<rparr>"
  assume a: "map_get (m_colors st) k' = Some c"
  then have "map_get (m_colors ?st1) k' = Some c" by simp
  from extract_node_colors_kept[OF this, of h node] a
  show "\<exists>c'. map_get (m_colors (analyzeNode h node st)) k' = Some c' \<and> color_kept c c'"
    by (auto simp: analyzeNode_def Let_def color_kept_refl)
qed

lemma analyzeNodes_fonts_kept:
  "map_get (m_fonts st) k = Some e \<Longrightarrow>
     \<exists>e'. map_get (m_fonts (analyzeNodes h nodes st)) k = Some e' \<and> font_kept e e'"
proof (induction nodes arbitrary: st e)
  case Nil
  then show ?case by (auto simp: font_kept_refl)
next
  case (Cons node nodes)
  let ?st = "if n_type node \<noteq> [] \<and> n_removed node \<noteq> True then analyzeNode h node st else st"
  from analyzeNode_kept(1)[OF Cons.prems, of h node] Cons.prems
  obtain e1 where e1: "map_get (m_fonts ?st) k = Some e1" "font_kept e e1"
    by (cases "n_type node \<noteq> [] \<and> n_removed node \<noteq> True") (auto simp: font_kept_refl)
  from Cons.IH[OF e1(1)] e1(2) show ?case
    by (auto intro: font_kept_trans)
qed

lemma analyzeNodes_colors_kept:
  "map_get (m_colors st) k = Some e \<Longrightarrow>
     \<exists>e'. map_get (m_colors (analyzeNodes h nodes st)) k = Some e' \<and> color_kept e e'"
proof (induction nodes arbitrary: st e)
  case Nil
  then show ?case by (auto simp: color_kept_refl)
next
  case (Cons node nodes)
  let ?st = "if n_type node \<noteq> [] \<and> n_removed node \<noteq> True then analyzeNode h node st else st"
  from analyzeNode_kept(2)[OF Cons.prems, of h node] Cons.prems
  obtain e1 where e1: "map_get (m_colors ?st) k = Some e1" "color_kept e e1"
    by (cases "n_type node \<noteq> [] \<and> n_removed node \<noteq> True") (auto simp: color_kept_refl)
  from Cons.IH[OF e1(1)] e1(2) show ?case
    by (auto intro: color_kept_trans)
qed

lemma font_kept_truthy: "font_kept e e' \<Longrightarrow> truthy (fi_styleName e) \<Longrightarrow> e' = e"
  by (cases e, cases e') (auto simp: font_kept_def)

lemma color_kept_truthy: "color_kept e e' \<Longrightarrow> truthy (ci_styleName e) \<Longrightarrow> e' = e"
  by (cases e, cases e') (auto simp: color_kept_def)

text \<open>
  Claim C7, amended. An entry already stored under a font key or a colour key stays under
  that key through the processing of one more node, and of any further sequence of nodes,
  and the only field that may differ afterwards is a style name that was \<open>null\<close> or
  empty and has become a non-empty one: a detection against an existing key stores the
  detected style name exactly when that name is non-empty and the stored one is \<open>null\<close>
  or empty, and changes nothing otherwise. A non-empty stored style name is therefore never
  overwritten, neither by \<open>null\<close> nor by another name, and the font family, font style,
  font size, colour hex, opacity and the origin (fill or stroke) of the entry are those of
  the detection that created it.
\<close>

theorem entries_only_backfilled:
  "(map_get (m_fonts st) k = Some e \<longrightarrow>
      (\<exists>e'. map_get (m_fonts (analyzeNode h node st)) k = Some e' \<and> font_kept e e')
      \<and> (\<exists>e'. map_get (m_fonts (analyzeNodes h nodes st)) k = Some e' \<and> font_kept e e'))
   \<and> (map_get (m_colors st) k = Some c \<longrightarrow>
      (\<exists>c'. map_get (m_colors (analyzeNode h node st)) k = Some c' \<and> color_kept c c')
      \<and> (\<exists>c'. map_get (m_colors (analyzeNodes h nodes st)) k = Some c' \<and> color_kept c c'))
   \<and> (map_get fm k = Some e \<longrightarrow>
        map_get (upsert_font k info fm) k =
          Some (if truthy (fi_styleName info) \<and> \<not> truthy (fi_styleName e)
                then e\<lparr>fi_styleName := fi_styleName info\<rparr> else e))
   \<and> (map_get cm k = Some c \<longrightarrow>
        map_get (upsert_color k cinfo cm) k =
          Some (if truthy (ci_styleName cinfo) \<and> \<not> truthy (ci_styleName c)
                then c\<lparr>ci_styleName := ci_styleName cinfo\<rparr> else c))
   \<and> (font_kept e e' \<and> truthy (fi_styleName e) \<longrightarrow> e' = e)
   \<and> (color_kept c c' \<and> truthy (ci_styleName c) \<longrightarrow> c' = c)
   \<and> (font_kept e e' \<longrightarrow> fi_fontFamily e' = fi_fontFamily e \<and> fi_fontStyle e' = fi_fontStyle e
                          \<and> fi_fontSize e' = fi_fontSize e)
   \<and> (color_kept c c' \<longrightarrow> ci_hex c' = ci_hex c \<and> ci_opacity c' = ci_opacity c
                          \<and> ci_type c' = ci_type c)"
proof (intro conjI impI)
  show "font_kept e e' \<and> truthy (fi_styleName e) \<Longrightarrow> e' = e"
    using font_kept_truthy by blast
  show "color_kept c c' \<and> truthy (ci_styleName c) \<Longrightarrow> c' = c"
    using color_kept_truthy by blast
qed (simp_all add: analyzeNode_kept analyzeNodes_fonts_kept analyzeNodes_colors_kept
      upsert_font_entry upsert_color_entry, simp_all add: font_kept_def color_kept_def)

lemma digits10_small: "n < 10 \<Longrightarrow> digits10 n = [''0123456789'' ! n]"
  by (simp add: digits10.simps)

lemma digits10_big: "10 \<le> n \<Longrightarrow> digits10 n = digits10 (n div 10) @ [''0123456789'' ! (n mod 10)]"
  by (subst digits10.simps) simp

lemma sample_fontKey:
  "fontKey_of (sample_host styles) ''Inter'' ''Bold'' (Px 24) = ''Inter - Bold - 24px''"
  by (simp add: fontKey_of_def font_size_str_def sample_host_def int_str_def digits10_small digits10_big)

lemma sample_text_step:
  "analyzeNode (sample_host styles) (sample_text i sid) st =
     (if i \<in> set (processedNodes st) then st
      else font_step (sample_host styles) (sample_text i sid)
             (st\<lparr>processedNodes := set_add (processedNodes st) i\<rparr>))"
  by (simp add: analyzeNode_def sample_text_def extract_node_def instance_step_def fills_step_def
      strokes_step_def effect_step_def resolve_style_def Let_def)

lemma sample_font_step:
  "m_fonts (font_step (sample_host styles) (sample_text i sid) st) =
     upsert_font ''Inter - Bold - 24px''
       \<lparr>fi_fontFamily = ''Inter'', fi_fontStyle = ''Bold'', fi_fontSize = Px 24,
        fi_styleName = (if sid \<noteq> [] then map_of styles sid else None)\<rparr> (m_fonts st)"
proof -
  have z: "resolve_font_size (sample_host styles) (sample_text i sid) = Px 24"
    by (simp add: resolve_font_size_def sample_text_def)
  have n: "n_fontName (sample_text i sid) = FontName ''Inter'' ''Bold''"
    "n_textStyleId (sample_text i sid) = sid"
    by (simp_all add: sample_text_def)
  have r: "map_option st_name (resolve_style (sample_host styles) sid)
           = (if sid \<noteq> [] then map_of styles sid else None)"
    by (cases "map_of styles sid") (simp_all add: resolve_style_def sample_host_def)
  show ?thesis
    unfolding font_step_def n font_name_prop.case z Let_def sample_fontKey
    using r by (cases "resolve_style (sample_host styles) sid") simp_all
qed


text \<open>The font map after a pass over one and over two sample text nodes.\<close>

lemma sample_text_pass:
  "m_fonts (analyzeNodes (sample_host styles) [sample_text ''t1'' s1] empty_pass)
     = upsert_font ''Inter - Bold - 24px''
         \<lparr>fi_fontFamily = ''Inter'', fi_fontStyle = ''Bold'', fi_fontSize = Px 24,
          fi_styleName = (if s1 \<noteq> [] then map_of styles s1 else None)\<rparr> []"
  "m_fonts (analyzeNodes (sample_host styles) [sample_text ''t1'' s1, sample_text ''t2'' s2] empty_pass)
     = upsert_font ''Inter - Bold - 24px''
         \<lparr>fi_fontFamily = ''Inter'', fi_fontStyle = ''Bold'', fi_fontSize = Px 24,
          fi_styleName = (if s2 \<noteq> [] then map_of styles s2 else None)\<rparr>
        (upsert_font ''Inter - Bold - 24px''
         \<lparr>fi_fontFamily = ''Inter'', fi_fontStyle = ''Bold'', fi_fontSize = Px 24,
          fi_styleName = (if s1 \<noteq> [] then map_of styles s1 else None)\<rparr> [])"
proof -
  have t: "n_type (sample_text i sid) \<noteq> []" "\<not> n_removed (sample_text i sid)" for i sid
    by (simp_all add: sample_text_def)
  have p: "processedNodes (font_step h node st) = processedNodes st" for h node st
    by (simp add: font_step_def Let_def split: font_name_prop.splits option.splits)
  have e: "processedNodes empty_pass = []" "m_fonts empty_pass = []"
    by (simp_all add: empty_pass_def)
  show "m_fonts (analyzeNodes (sample_host styles) [sample_text ''t1'' s1] empty_pass)
     = upsert_font ''Inter - Bold - 24px''
         \<lparr>fi_fontFamily = ''Inter'', fi_fontStyle = ''Bold'', fi_fontSize = Px 24,
          fi_styleName = (if s1 \<noteq> [] then map_of styles s1 else None)\<rparr> []"
    unfolding analyzeNodes.simps sample_text_step e by (simp add: t sample_font_step e)
  show "m_fonts (analyzeNodes (sample_host styles) [sample_text ''t1'' s1, sample_text ''t2'' s2] empty_pass)
     = upsert_font ''Inter - Bold - 24px''
         \<lparr>fi_fontFamily = ''Inter'', fi_fontStyle = ''Bold'', fi_fontSize = Px 24,
          fi_styleName = (if s2 \<noteq> [] then map_of styles s2 else None)\<rparr>
        (upsert_font ''Inter - Bold - 24px''
         \<lparr>fi_fontFamily = ''Inter'', fi_fontStyle = ''Bold'', fi_fontSize = Px 24,
          fi_styleName = (if s1 \<noteq> [] then map_of styles s1 else None)\<rparr> [])"
    unfolding analyzeNodes.simps sample_text_step e
    by (simp add: t sample_font_step e p set_add_def)
qed

lemmas upsert_eval = upsert_font_def map_has_def map_get_def map_set_def truthy_def

text \<open>
  The theorem at work: a text node without a style creates the entry of
  \<open>Inter - Bold - 24px\<close> with a \<open>null\<close> style name; a second text node of the same font
  carrying the style \<open>Heading\<close> backfills the name, and nothing else differs.
\<close>

theorem entries_only_backfilled_witness:
  "map_get (m_fonts (analyzeNodes (sample_host [(''S:2'', ''Heading'')]) [sample_text ''t1'' []] empty_pass))
      ''Inter - Bold - 24px''
     = Some \<lparr>fi_fontFamily = ''Inter'', fi_fontStyle = ''Bold'', fi_fontSize = Px 24,
             fi_styleName = None\<rparr>
   \<and> map_get (m_fonts (analyzeNodes (sample_host [(''S:2'', ''Heading'')]) [sample_text ''t2'' ''S:2'']
        (analyzeNodes (sample_host [(''S:2'', ''Heading'')]) [sample_text ''t1'' []] empty_pass)))
      ''Inter - Bold - 24px''
     = Some \<lparr>fi_fontFamily = ''Inter'', fi_fontStyle = ''Bold'', fi_fontSize = Px 24,
             fi_styleName = Some ''Heading''\<rparr>
   \<and> font_kept \<lparr>fi_fontFamily = ''Inter'', fi_fontStyle = ''Bold'', fi_fontSize = Px 24,
             fi_styleName = None\<rparr>
        \<lparr>fi_fontFamily = ''Inter'', fi_fontStyle = ''Bold'', fi_fontSize = Px 24,
             fi_styleName = Some ''Heading''\<rparr>"
proof -
  let ?h = "sample_host [(''S:2'', ''Heading'')]"
  let ?st = "analyzeNodes ?h [sample_text ''t1'' []] empty_pass"
  let ?e = "\<lparr>fi_fontFamily = ''Inter'', fi_fontStyle = ''Bold'', fi_fontSize = Px 24, fi_styleName = None\<rparr>"
  let ?e' = "\<lparr>fi_fontFamily = ''Inter'', fi_fontStyle = ''Bold'', fi_fontSize = Px 24,
             fi_styleName = Some ''Heading''\<rparr>"
  have a: "map_get (m_fonts ?st) ''Inter - Bold - 24px'' = Some ?e"
    unfolding sample_text_pass(1) by (simp add: upsert_eval)
  have two: "analyzeNodes ?h [sample_text ''t2'' ''S:2''] ?st
             = analyzeNodes ?h [sample_text ''t1'' [], sample_text ''t2'' ''S:2''] empty_pass"
    by (simp add: sample_text_def)
  have b: "map_get (m_fonts (analyzeNodes ?h [sample_text ''t2'' ''S:2''] ?st)) ''Inter - Bold - 24px'' = Some ?e'"
    unfolding two sample_text_pass(2) by (simp add: upsert_eval)
  from entries_only_backfilled[of ?st "''Inter - Bold - 24px''" ?e ?h _ "[sample_text ''t2'' ''S:2'']",
      THEN conjunct1, rule_format, OF a, THEN conjunct2]
  obtain e' where "map_get (m_fonts (analyzeNodes ?h [sample_text ''t2'' ''S:2''] ?st)) ''Inter - Bold - 24px'' = Some e'"
    "font_kept ?e e'" by blast
  with b have c: "font_kept ?e ?e'" by simp
  show ?thesis by (intro conjI a b c)
qed

text \<open>
  Claim C7 as stated lets only a \<open>null\<close> style name change, and has the first
  non-\<open>null\<close> name never overwritten by a different one. The test of the code is
  \<open>styleName && !fonts.get(fontKey).styleName\<close>, which also fires for a stored
  empty name: a first text node whose style is named with the empty string stores that
  non-\<open>null\<close> name, and a second node of the same font with the style \<open>Heading\<close>
  overwrites it.
\<close>

theorem styleName_overwritten_counterexample:
  "map_get (m_fonts (analyzeNodes (sample_host [(''S:1'', []), (''S:2'', ''Heading'')])
        [sample_text ''t1'' ''S:1''] empty_pass)) ''Inter - Bold - 24px''
     = Some \<lparr>fi_fontFamily = ''Inter'', fi_fontStyle = ''Bold'', fi_fontSize = Px 24,
             fi_styleName = Some []\<rparr>
   \<and> map_get (m_fonts (analyzeNodes (sample_host [(''S:1'', []), (''S:2'', ''Heading'')])
        [sample_text ''t1'' ''S:1'', sample_text ''t2'' ''S:2''] empty_pass)) ''Inter - Bold - 24px''
     = Some \<lparr>fi_fontFamily = ''Inter'', fi_fontStyle = ''Bold'', fi_fontSize = Px 24,
             fi_styleName = Some ''Heading''\<rparr>"
  unfolding sample_text_pass by (simp add: upsert_eval)

subsection \<open>Opacity\<close>

lemma opacities_ok_iff:
  "opacities_ok m \<longleftrightarrow> (\<forall>(k, e) \<in> set m. 0 < ci_opacity e \<and> ci_opacity e \<le> 1)"
  by (simp add: opacities_ok_def list_all_iff)

lemma map_set_ok:
  assumes "opacities_ok m" "0 < ci_opacity v" "ci_opacity v \<le> 1"
  shows "opacities_ok (map_set m k v)"
  unfolding opacities_ok_iff
proof (clarify)
  fix k' e assume "(k', e) \<in> set (map_set m k v)"
  from in_map_set[OF this] assms show "0 < ci_opacity e \<and> ci_opacity e \<le> 1"
    by (auto simp: opacities_ok_iff)
qed

lemma upsert_color_ok:
  assumes "opacities_ok m" "0 < ci_opacity info" "ci_opacity info \<le> 1"
  shows "opacities_ok (upsert_color k info m)"
proof (cases "map_get m k")
  case None
  with assms show ?thesis by (simp add: upsert_color_def map_set_ok)
next
  case (Some e)
  from map_get_in_set[OF this] assms(1) have "0 < ci_opacity e \<and> ci_opacity e \<le> 1"
    by (auto simp: opacities_ok_iff)
  then have "opacities_ok (map_set m k (e\<lparr>ci_styleName := ci_styleName info\<rparr>))"
    using assms(1) by (intro map_set_ok) simp_all
  with Some assms show ?thesis by (simp add: upsert_color_def map_set_ok)
qed

lemma paint_step_ok:
  assumes "opacities_ok (m_colors st)" "paint_in_range p"
  shows "opacities_ok (m_colors (paint_step h origin sid p st))"
proof (cases "paint_counts p")
  case False
  with assms show ?thesis by (simp add: paint_step_def)
next
  case True
  let ?a = "case p_opacity p of Some x \<Rightarrow> x | None \<Rightarrow> 1"
  from True assms(2) have a: "0 < ?a" "?a \<le> 1"
    by (auto simp: paint_counts_def paint_in_range_def split: option.splits)
  show ?thesis
    using True assms(1) a
    by (auto simp: paint_step_def Let_def intro!: upsert_color_ok split: option.splits)
qed

lemma paints_fold_ok:
  "opacities_ok (m_colors st) \<Longrightarrow> list_all paint_in_range ps \<Longrightarrow>
     opacities_ok (m_colors (foldl (\<lambda>s p. paint_step h origin sid p s) st ps))"
  by (induction ps arbitrary: st) (simp_all add: paint_step_ok)

lemma extract_node_ok:
  assumes "opacities_ok (m_colors st)" "paints_in_range node"
  shows "opacities_ok (m_colors (extract_node h node st))"
proof (cases "instance_step node st")
  case (Return st')
  with instance_step_maps[of node st st'] assms show ?thesis by (simp add: extract_node_def)
next
  case (Continue st')
  with instance_step_maps[of node st st'] assms(1)
  have "opacities_ok (m_colors (font_step h node st'))" by (simp add: font_step_colors)
  then have "opacities_ok (m_colors (fills_step h node (font_step h node st')))"
    using assms(2) by (auto simp: fills_step_def paints_in_range_def paints_fold_ok split: option.splits)
  then have "opacities_ok (m_colors (strokes_step h node (fills_step h node (font_step h node st'))))"
    using assms(2) by (auto simp: strokes_step_def paints_in_range_def paints_fold_ok split: option.splits)
  with Continue show ?thesis by (simp add: extract_node_def effect_step_maps)
qed

lemma analyzeNode_ok:
  assumes "opacities_ok (m_colors st)" "paints_in_range node"
  shows "opacities_ok (m_colors (analyzeNode h node st))"
proof -
  let ?st1 = "st\<lparr>processedNodes := set_add (processedNodes st) (n_id node)\<rparr>"
  from assms(1) have "opacities_ok (m_colors ?st1)" by simp
  from extract_node_ok[OF this assms(2), of h] assms(1)
  show ?thesis by (simp add: analyzeNode_def Let_def)
qed

lemma analyzeNodes_ok:
  "opacities_ok (m_colors st) \<Longrightarrow> list_all paints_in_range nodes \<Longrightarrow>
     opacities_ok (m_colors (analyzeNodes h nodes st))"
  by (induction nodes arbitrary: st) (simp_all add: analyzeNode_ok)



lemma colorKey_full: "1 \<le> a \<Longrightarrow> colorKey_of h hex a = hex"
  by (simp add: colorKey_of_def)






lemma sample_red: "rgbToHex (\<lambda>x. x) 1 0 0 = ''#FF0000''"
proof -
  have r: "Math_round (255 :: rat) = 255" "Math_round (0 :: rat) = 0" by code_simp+
  from toHex_byte[of 255] toHex_byte[of 0] show ?thesis
    by (simp add: rgbToHex_split toHex_def r hex2_upper_def HEX_char_def)
qed



section \<open>The pass over a frame\<close>

subsection \<open>The collections only grow\<close>

lemma map_set_keys: "fst ` set (map_set m k v) = insert k (fst ` set m)"
proof (cases "map_has m k")
  case True
  have "fst ` set (map (\<lambda>(k', v'). if k' = k then (k', v) else (k', v')) m) = fst ` set m"
    by (induction m) auto
  with True show ?thesis by (auto simp: map_set_def map_has_def)
next
  case False
  then show ?thesis by (simp add: map_set_def)
qed

lemma map_has_map_set: "map_has (map_set m k v) k' \<longleftrightarrow> k' = k \<or> map_has m k'"
  by (simp add: map_has_def map_set_keys)

lemma upsert_color_keys: "fst ` set (upsert_color k info m) = insert k (fst ` set m)"
  by (auto simp: upsert_color_def map_set_keys map_has_def split: option.splits)

lemma upsert_font_keys: "fst ` set (upsert_font k info m) = insert k (fst ` set m)"
  by (auto simp: upsert_font_def map_set_keys map_has_def split: option.splits)

lemma upsert_component_keys:
  "fst ` set (upsert_component mc ms m) = insert (js_or (mc_key mc) (mc_id mc)) (fst ` set m)"
  by (auto simp: upsert_component_def Let_def map_set_keys map_has_def split: option.splits)

lemma set_add_set: "set (set_add s x) = insert x (set s)"
  by (auto simp: set_add_def)

lemma grows_refl: "grows st st"
  by (simp add: grows_def)

lemma grows_trans:
  assumes "grows a b" "grows b c"
  shows "grows a c"
  using assms unfolding grows_def
  by (elim conjE, intro conjI) (erule (1) subset_trans)+

lemma grows_processed: "grows st (st\<lparr>processedNodes := ps\<rparr>)"
  by (simp add: grows_def)

lemma instance_step_grows:
  assumes "instance_step node st = Return st' \<or> instance_step node st = Continue st'"
  shows "grows st st'"
proof -
  have k: "fst ` set m \<subseteq> fst ` set (upsert_component mc ms m)" for mc ms and m :: "(string, comp_ref) jsmap"
    by (simp add: upsert_component_keys subset_insertI)
  have i: "grows st (st\<lparr>m_icons := upsert_component mc ms (m_icons st)\<rparr>)" for mc ms
    by (simp add: grows_def k)
  have c: "grows st (st\<lparr>m_components := upsert_component mc ms (m_components st)\<rparr>)" for mc ms
    by (simp add: grows_def k)
  from assms show ?thesis
    unfolding instance_step_def Let_def
    by (auto simp: grows_refl i c split: if_splits access.splits option.splits)
qed

lemma font_step_grows: "grows st (font_step h node st)"
proof (cases "n_fontName node")
  case (FontName family sty)
  then show ?thesis
    by (cases "resolve_style h (n_textStyleId node)")
       (simp_all add: font_step_def Let_def grows_def upsert_font_keys map_set_keys subset_insertI)
qed (simp_all add: font_step_def grows_refl)

lemma paint_step_grows: "grows st (paint_step h origin sid p st)"
proof (cases "paint_counts p")
  case True
  then obtain r g b where c: "p_color p = Some (r, g, b)"
    by (auto simp: paint_counts_def)
  show ?thesis
    by (cases "resolve_style h sid")
       (simp_all add: paint_step_def True c Let_def grows_def upsert_color_keys set_add_set
          subset_insertI)
qed (simp add: paint_step_def grows_refl)

lemma paints_fold_grows: "grows st (foldl (\<lambda>s p. paint_step h origin sid p s) st ps)"
proof (induction ps arbitrary: st)
  case Nil
  show ?case by (simp add: grows_refl)
next
  case (Cons p ps)
  from grows_trans[OF paint_step_grows Cons.IH] show ?case by simp
qed

lemma fills_step_grows: "grows st (fills_step h node st)"
  by (simp add: fills_step_def paints_fold_grows grows_refl split: option.splits)

lemma strokes_step_grows: "grows st (strokes_step h node st)"
  by (simp add: strokes_step_def paints_fold_grows grows_refl split: option.splits)

lemma effect_step_grows: "grows st (effect_step h node st)"
  by (cases "resolve_style h (n_effectStyleId node)")
     (simp_all add: effect_step_def grows_def set_add_set subset_insertI)

lemma extract_node_grows: "grows st (extract_node h node st)"
proof (cases "instance_step node st")
  case (Return st')
  with instance_step_grows[of node st st'] show ?thesis by (simp add: extract_node_def)
next
  case (Continue st')
  with instance_step_grows[of node st st'] have "grows st st'" by simp
  from grows_trans[OF this grows_trans[OF font_step_grows grows_trans[OF fills_step_grows
        grows_trans[OF strokes_step_grows effect_step_grows]]]]
  show ?thesis using Continue by (simp add: extract_node_def)
qed

lemma analyzeNode_grows: "grows st (analyzeNode h node st)"
proof -
  let ?st1 = "st\<lparr>processedNodes := set_add (processedNodes st) (n_id node)\<rparr>"
  have "grows st ?st1" by (rule grows_processed)
  from this grows_trans[OF this extract_node_grows[of ?st1 h node]]
  show ?thesis by (simp add: analyzeNode_def Let_def grows_refl)
qed

lemma analyzeNodes_grows: "grows st (analyzeNodes h nodes st)"
proof (induction nodes arbitrary: st)
  case Nil
  show ?case by (simp add: grows_refl)
next
  case (Cons node nodes)
  let ?st = "if n_type node \<noteq> [] \<and> n_removed node \<noteq> True then analyzeNode h node st else st"
  have "grows st ?st" by (simp add: analyzeNode_grows grows_refl)
  from grows_trans[OF this Cons.IH] show ?case by simp
qed

lemma grows_has:
  assumes "grows st st'"
  shows "map_has (m_components st) k \<Longrightarrow> map_has (m_components st') k"
    "map_has (m_icons st) k \<Longrightarrow> map_has (m_icons st') k"
    "map_has (m_fonts st) k \<Longrightarrow> map_has (m_fonts st') k"
    "map_has (m_colors st) k \<Longrightarrow> map_has (m_colors st') k"
    "map_has (m_textStyles st) k \<Longrightarrow> map_has (m_textStyles st') k"
    "k \<in> set (m_colorStyles st) \<Longrightarrow> k \<in> set (m_colorStyles st')"
    "k \<in> set (m_effectStyles st) \<Longrightarrow> k \<in> set (m_effectStyles st')"
  using assms unfolding grows_def map_has_def by (meson subsetD)+

lemma holds_paint_grows:
  assumes "grows st st'" "holds_paint h sid st p"
  shows "holds_paint h sid st' p"
proof (cases "paint_counts p")
  case True
  then obtain r g b where c: "p_color p = Some (r, g, b)"
    by (auto simp: paint_counts_def)
  from assms(2) show ?thesis
    by (cases "resolve_style h sid")
       (simp_all add: holds_paint_def True c grows_has[OF assms(1)])
qed (simp add: holds_paint_def)

lemma holds_paints_grows: "grows st st' \<Longrightarrow> holds_paints h sid ps st \<Longrightarrow> holds_paints h sid ps st'"
  by (auto simp: holds_paints_def list_all_iff holds_paint_grows split: option.splits)

lemma holds_font_grows:
  assumes "grows st st'" "holds_font h node st"
  shows "holds_font h node st'"
proof (cases "n_fontName node")
  case (FontName family sty)
  with assms(2) show ?thesis
    by (cases "resolve_style h (n_textStyleId node)")
       (simp_all add: holds_font_def grows_has[OF assms(1)])
qed (simp_all add: holds_font_def)

lemma holds_effect_grows:
  assumes "grows st st'" "holds_effect h node st"
  shows "holds_effect h node st'"
  using assms(2)
  by (cases "resolve_style h (n_effectStyleId node)")
     (simp_all add: holds_effect_def grows_has[OF assms(1)])

lemma holds_component_grows:
  assumes "grows st st'" "holds_component node st"
  shows "holds_component node st'"
  using assms(2) grows_has(1,2)[OF assms(1)]
  by (auto simp: holds_component_def split: option.splits access.splits if_splits)

lemma contributed_grows: "grows st st' \<Longrightarrow> contributed h node st \<Longrightarrow> contributed h node st'"
  unfolding contributed_def
  using holds_component_grows holds_font_grows holds_paints_grows holds_effect_grows by blast

subsection \<open>Each block stores what it reads\<close>

lemma instance_step_Return: "instance_step node st = Return st' \<Longrightarrow> broken_instance node"
  by (auto simp: instance_step_def broken_instance_def Let_def
      split: if_splits access.splits option.splits)

lemma instance_step_holds:
  assumes "instance_step node st = Continue st'"
  shows "holds_component node st'"
proof (cases "n_type node = ''INSTANCE''")
  case False
  then show ?thesis by (simp add: holds_component_def)
next
  case True
  show ?thesis
  proof (cases "n_mainComponent node")
    case Throws
    then show ?thesis by (simp add: holds_component_def)
  next
    case (Value m)
    show ?thesis
    proof (cases m)
      case None
      with Value show ?thesis by (simp add: holds_component_def)
    next
      case (Some m')
      show ?thesis
      proof (cases "n_getMainComponentAsync node")
        case Throws
        with Value Some show ?thesis by (simp add: holds_component_def)
      next
        case g: (Value c)
        show ?thesis
        proof (cases c)
          case None
          with Value Some g show ?thesis by (simp add: holds_component_def)
        next
          case c: (Some mc)
          from assms show ?thesis
            unfolding holds_component_def instance_step_def
            by (auto simp: True Value Some g c Let_def map_has_def upsert_component_keys
                split: if_splits)
        qed
      qed
    qed
  qed
qed

lemma font_step_holds: "holds_font h node (font_step h node st)"
proof (cases "n_fontName node")
  case (FontName family sty)
  then show ?thesis
    by (cases "resolve_style h (n_textStyleId node)")
       (simp_all add: font_step_def holds_font_def Let_def map_has_def upsert_font_keys map_set_keys)
qed (simp_all add: holds_font_def)

lemma paint_step_holds: "holds_paint h sid (paint_step h origin sid p st) p"
proof (cases "paint_counts p")
  case True
  then obtain r g b where c: "p_color p = Some (r, g, b)"
    by (auto simp: paint_counts_def)
  show ?thesis
    by (cases "resolve_style h sid")
       (simp_all add: paint_step_def holds_paint_def True c Let_def map_has_def upsert_color_keys
          set_add_set)
qed (simp add: holds_paint_def)

lemma paints_fold_holds:
  "list_all (holds_paint h sid (foldl (\<lambda>s p. paint_step h origin sid p s) st ps)) ps"
proof (induction ps arbitrary: st)
  case Nil
  show ?case by simp
next
  case (Cons p ps)
  have "holds_paint h sid (foldl (\<lambda>s p. paint_step h origin sid p s) (paint_step h origin sid p st) ps) p"
    using paints_fold_grows paint_step_holds by (rule holds_paint_grows)
  with Cons.IH show ?case by simp
qed

lemma fills_step_holds: "holds_paints h (n_fillStyleId node) (n_fills node) (fills_step h node st)"
  by (simp add: holds_paints_def fills_step_def paints_fold_holds split: option.splits)

lemma strokes_step_holds: "holds_paints h (n_strokeStyleId node) (n_strokes node) (strokes_step h node st)"
  by (simp add: holds_paints_def strokes_step_def paints_fold_holds split: option.splits)

lemma effect_step_holds: "holds_effect h node (effect_step h node st)"
  by (cases "resolve_style h (n_effectStyleId node)")
     (simp_all add: holds_effect_def effect_step_def set_add_set)

lemma extract_node_contributed:
  assumes "\<not> broken_instance node"
  shows "contributed h node (extract_node h node st)"
proof (cases "instance_step node st")
  case (Return st')
  with instance_step_Return assms show ?thesis by blast
next
  case (Continue st')
  let ?f = "font_step h node st'"
  let ?p = "fills_step h node ?f"
  let ?s = "strokes_step h node ?p"
  let ?e = "effect_step h node ?s"
  have g1: "grows st' ?e"
    using grows_trans[OF font_step_grows grows_trans[OF fills_step_grows
          grows_trans[OF strokes_step_grows effect_step_grows]]] .
  have g2: "grows ?f ?e"
    using grows_trans[OF fills_step_grows grows_trans[OF strokes_step_grows effect_step_grows]] .
  have g3: "grows ?p ?e"
    using grows_trans[OF strokes_step_grows effect_step_grows] .
  have g4: "grows ?s ?e" by (rule effect_step_grows)
  have "holds_component node ?e"
    using g1 instance_step_holds[OF Continue] by (rule holds_component_grows)
  moreover have "holds_font h node ?e"
    using g2 font_step_holds by (rule holds_font_grows)
  moreover have "holds_paints h (n_fillStyleId node) (n_fills node) ?e"
    using g3 fills_step_holds by (rule holds_paints_grows)
  moreover have "holds_paints h (n_strokeStyleId node) (n_strokes node) ?e"
    using g4 strokes_step_holds by (rule holds_paints_grows)
  moreover have "holds_effect h node ?e" by (rule effect_step_holds)
  ultimately show ?thesis using Continue by (simp add: contributed_def extract_node_def)
qed

lemma analyzeNode_contributed:
  assumes "fresh node st" "\<not> excluded node" "\<not> broken_instance node"
  shows "contributed h node (analyzeNode h node st)"
proof -
  from assms(1,2) have "analyzeNode h node st
      = extract_node h node (st\<lparr>processedNodes := set_add (processedNodes st) (n_id node)\<rparr>)"
    by (auto simp: analyzeNode_def fresh_def excluded_def Let_def)
  with extract_node_contributed[OF assms(3)] show ?thesis by simp
qed

lemma analyzeNode_processed:
  "set (processedNodes (analyzeNode h node st)) \<subseteq> insert (n_id node) (set (processedNodes st))"
proof -
  have i: "instance_step n s = Return s' \<or> instance_step n s = Continue s' \<Longrightarrow>
           processedNodes s' = processedNodes s" for n s s'
    by (auto simp: instance_step_def Let_def split: if_splits access.splits option.splits)
  have f: "processedNodes (font_step h n s) = processedNodes s" for n s
    by (simp add: font_step_def Let_def split: font_name_prop.splits option.splits)
  have p: "processedNodes (paint_step h origin sid q s) = processedNodes s" for origin sid q s
    by (simp add: paint_step_def Let_def split: option.splits prod.splits)
  have pf: "processedNodes (foldl (\<lambda>s q. paint_step h origin sid q s) s qs) = processedNodes s"
    for origin sid qs s
    by (induction qs arbitrary: s) (simp_all add: p)
  have e: "processedNodes (effect_step h n s) = processedNodes s" for n s
    by (simp add: effect_step_def split: option.splits)
  have x: "processedNodes (extract_node h n s) = processedNodes s" for n s
  proof (cases "instance_step n s")
    case (Return s')
    with i[of n s s'] show ?thesis by (simp add: extract_node_def)
  next
    case (Continue s')
    with i[of n s s'] show ?thesis
      by (simp add: extract_node_def e f pf fills_step_def strokes_step_def split: option.splits)
  qed
  show ?thesis by (auto simp: analyzeNode_def Let_def x set_add_set)
qed

lemma analyzeNodes_contributed:
  assumes "node \<in> set nodes" "distinct (map n_id nodes)" "n_id node \<notin> set (processedNodes st)"
    and "n_type node \<noteq> []" "n_removed node = False" "\<not> excluded node" "\<not> broken_instance node"
  shows "contributed h node (analyzeNodes h nodes st)"
  using assms(1,2,3)
proof (induction nodes arbitrary: st)
  case Nil
  then show ?case by simp
next
  case (Cons n nodes)
  let ?st = "if n_type n \<noteq> [] \<and> n_removed n \<noteq> True then analyzeNode h n st else st"
  show ?case
  proof (cases "n = node")
    case True
    from Cons.prems(3) assms(4,5) have "fresh node st" by (simp add: fresh_def)
    from analyzeNode_contributed[OF this assms(6,7), of h]
    have "contributed h node (analyzeNode h node st)" .
    from contributed_grows[OF analyzeNodes_grows this, of h nodes] True assms(4,5)
    show ?thesis by simp
  next
    case False
    with Cons.prems have in': "node \<in> set nodes" and d: "distinct (map n_id nodes)"
      and ne: "n_id n \<noteq> n_id node"
      by auto
    have "n_id node \<notin> set (processedNodes ?st)"
      using analyzeNode_processed[of h n st] Cons.prems(3) ne by auto
    from Cons.IH[OF in' d this] show ?thesis by simp
  qed
qed

subsection \<open>The call on the selected frame\<close>

lemma root_paint_step_state: "root_paint_step h sid p st = Value st' \<Longrightarrow> st' = st"
  by (auto simp: root_paint_step_def Let_def split: if_splits option.splits prod.splits)

lemma root_paints_state: "root_paints h sid ps st = Value st' \<Longrightarrow> st' = st"
proof (induction ps arbitrary: st)
  case Nil
  then show ?case by simp
next
  case (Cons p ps)
  then show ?case
    by (cases "root_paint_step h sid p st") (auto dest: root_paint_step_state)
qed

lemma analyzeNode_root_cases:
  "analyzeNode_root h frame st = st
   \<or> analyzeNode_root h frame st = st\<lparr>processedNodes := set_add (processedNodes st) (rt_id frame)\<rparr>"
proof -
  let ?st1 = "st\<lparr>processedNodes := set_add (processedNodes st) (rt_id frame)\<rparr>"
  let ?f = "case rt_fills frame of Some fills \<Rightarrow> root_paints h (rt_fillStyleId frame) fills ?st1
            | None \<Rightarrow> Value ?st1"
  have f: "?f = Throws \<or> ?f = Value ?st1"
    by (cases "rt_fills frame"; cases ?f) (auto dest: root_paints_state)
  let ?s = "case rt_strokes frame of Some strokes \<Rightarrow> root_paints h (rt_strokeStyleId frame) strokes ?st1
            | None \<Rightarrow> Value ?st1"
  have s: "?s = Throws \<or> ?s = Value ?st1"
    by (cases "rt_strokes frame"; cases ?s) (auto dest: root_paints_state)
  have e: "root_effect_step h frame ?st1 = ?st1"
    by (simp add: root_effect_step_def split: option.splits)
  from f s show ?thesis
    unfolding analyzeNode_root_def Let_def by (auto simp: e)
qed

lemma analyzeNode_root_collections: "collections (analyzeNode_root h frame st) = collections st"
  using analyzeNode_root_cases[of h frame st] by (auto simp: collections_def)

lemma analyzeNode_root_processed:
  "set (processedNodes (analyzeNode_root h frame st)) \<subseteq> insert (rt_id frame) (set (processedNodes st))"
  using analyzeNode_root_cases[of h frame st] by (auto simp: set_add_set)

lemma findAll_filter_iff: "findAll_filter node \<longleftrightarrow> \<not> excluded node"
  by (auto simp: findAll_filter_def excluded_def)

lemma findAll_filter_eq: "findAll_filter = (\<lambda>n. \<not> excluded n)"
  by (rule ext) (simp add: findAll_filter_iff)

lemma analyzeFrame_pass_excluded:
  "analyzeFrame_pass h frame ds = analyzeFrame_pass h frame (filter (\<lambda>n. \<not> excluded n) ds)"
  by (simp add: analyzeFrame_pass_def findAll_filter_eq)

lemma analyzeFrame_pass_contributed:
  assumes "node \<in> set ds" "distinct (map n_id ds)" "rt_id frame \<notin> n_id ` set ds"
    and "n_type node \<noteq> []" "n_removed node = False" "\<not> excluded node" "\<not> broken_instance node"
  shows "contributed h node (analyzeFrame_pass h frame ds)"
proof -
  let ?all = "filter findAll_filter ds"
  have 1: "node \<in> set ?all" using assms(1,6) by (simp add: findAll_filter_iff)
  have 2: "distinct (map n_id ?all)" using assms(2) by (rule distinct_map_filter)
  have ne: "n_id node \<noteq> rt_id frame" using assms(1,3) by (auto simp: image_iff)
  have "processedNodes empty_pass = []" by (simp add: empty_pass_def)
  with analyzeNode_root_processed[of h frame empty_pass] ne
  have 3: "n_id node \<notin> set (processedNodes (analyzeNode_root h frame empty_pass))"
    by auto
  from analyzeNodes_contributed[OF 1 2 3 assms(4,5,6,7)]
  show ?thesis by (simp add: analyzeFrame_pass_def)
qed


lemma analyzeNode_root_maps:
  "m_colors (analyzeNode_root h frame st) = m_colors st"
  "m_fonts (analyzeNode_root h frame st) = m_fonts st"
  using analyzeNode_root_cases[of h frame st] by auto

text \<open>The colours of a whole pass keep their opacities in range, and the entries present
  at any point of the loop stay under their keys.\<close>

lemma analyzeFrame_pass_opacities:
  assumes "list_all paints_in_range ds"
  shows "opacities_ok (m_colors (analyzeFrame_pass h frame ds))"
proof -
  have "opacities_ok (m_colors (analyzeNode_root h frame empty_pass))"
    by (simp add: analyzeNode_root_maps opacities_ok_def empty_pass_def)
  moreover have "list_all paints_in_range (filter findAll_filter ds)"
    using assms by (simp add: list_all_iff)
  ultimately show ?thesis
    unfolding analyzeFrame_pass_def Let_def by (rule analyzeNodes_ok)
qed

text \<open>
  The call on the selected frame stores nothing. A frame with a red fill and no
  descendants gives a pass without colours, although the call the loop makes, with eight
  arguments, records the colour of the same node.
\<close>

lemma analyzeFrame_pass_root_fill:
  "m_colors (analyzeFrame_pass (sample_host []) (sample_frame ''0:1'' [solid_paint 1 0 0 None]) []) = []
   \<and> m_colors (analyzeNode (sample_host []) (frame_as_node (sample_frame ''0:1'' [solid_paint 1 0 0 None]))
        empty_pass) \<noteq> []"
proof -
  have a: "m_colors (analyzeFrame_pass (sample_host []) (sample_frame ''0:1'' [solid_paint 1 0 0 None]) []) = []"
    by (simp add: analyzeFrame_pass_def analyzeNode_root_maps empty_pass_def)
  have b: "m_colors (analyzeNode (sample_host []) (frame_as_node (sample_frame ''0:1'' [solid_paint 1 0 0 None]))
        empty_pass) \<noteq> []"
    by (simp add: analyzeNode_def extract_node_def instance_step_def font_step_def fills_step_def
        strokes_step_def effect_step_def paint_step_def paint_counts_def upsert_color_def map_has_def
        map_set_def resolve_style_def frame_as_node_def sample_frame_def solid_paint_def
        empty_pass_def sample_host_def Let_def)
  from a b show ?thesis by (rule conjI)
qed

text \<open>
  Claim C6, amended. Of the nodes below the selected frame, which the walk hands to
  \<open>analyzeNode\<close> from its loop, a node is excluded from all extraction when it is marked
  invisible or when its width and its height are both less than 1, compared as they are,
  without rounding: \<open>analyzeNode\<close> leaves the seven collections as they were, the filter of
  \<open>analyzeFrame\<close> rejects exactly these nodes, and a pass is the same with and without
  them. Every other node is processed: \<open>analyzeNode\<close> runs the extraction on it, whatever
  its visibility and size, and afterwards, and at the end of the pass, the collections hold
  its component, its font and text style, the colours of its counted fills and strokes with
  their colour style, and its effect style, unless it is an instance on which the
  extraction ends early. In a pass the nodes have distinct identifiers, other than the
  frame's.
\<close>

theorem analyzeNode_gate:
  "(fresh node st \<and> excluded node \<longrightarrow>
        collections (analyzeNode h node st) = collections st
        \<and> processedNodes (analyzeNode h node st) = processedNodes st @ [n_id node])
   \<and> (fresh node st \<and> \<not> excluded node \<longrightarrow>
        analyzeNode h node st
          = extract_node h node (st\<lparr>processedNodes := processedNodes st @ [n_id node]\<rparr>)
        \<and> (\<forall>v w h'. extract_node h (node\<lparr>n_visible := v, n_width := w, n_height := h'\<rparr>)
                        (st\<lparr>processedNodes := processedNodes st @ [n_id node]\<rparr>)
                    = analyzeNode h node st)
        \<and> (\<not> broken_instance node \<longrightarrow> contributed h node (analyzeNode h node st)))
   \<and> (excluded node \<longleftrightarrow> n_visible node = False \<or> (n_width node < 1 \<and> n_height node < 1))
   \<and> (findAll_filter node \<longleftrightarrow> \<not> excluded node)
   \<and> analyzeFrame_pass h frame ds = analyzeFrame_pass h frame (filter (\<lambda>n. \<not> excluded n) ds)
   \<and> (node \<in> set ds \<and> distinct (map n_id ds) \<and> rt_id frame \<notin> n_id ` set ds
        \<and> n_type node \<noteq> [] \<and> n_removed node = False
        \<and> \<not> excluded node \<and> \<not> broken_instance node \<longrightarrow>
        contributed h node (analyzeFrame_pass h frame ds))"
proof (intro conjI impI allI)
  assume a: "fresh node st \<and> excluded node"
  then show "collections (analyzeNode h node st) = collections st"
    by (auto simp: fresh_def excluded_def analyzeNode_def collections_def Let_def)
  from a show "processedNodes (analyzeNode h node st) = processedNodes st @ [n_id node]"
    by (auto simp: fresh_def excluded_def analyzeNode_def set_add_def Let_def)
next
  assume a: "fresh node st \<and> \<not> excluded node"
  then show e: "analyzeNode h node st
          = extract_node h node (st\<lparr>processedNodes := processedNodes st @ [n_id node]\<rparr>)"
    by (auto simp: fresh_def excluded_def analyzeNode_def set_add_def Let_def)
  fix v w h'
  show "extract_node h (node\<lparr>n_visible := v, n_width := w, n_height := h'\<rparr>)
                        (st\<lparr>processedNodes := processedNodes st @ [n_id node]\<rparr>)
                    = analyzeNode h node st"
    unfolding e by (rule extract_node_ignores_gate)
next
  assume "fresh node st \<and> \<not> excluded node" "\<not> broken_instance node"
  then show "contributed h node (analyzeNode h node st)"
    by (simp add: analyzeNode_contributed)
next
  show "excluded node \<longleftrightarrow> n_visible node = False \<or> (n_width node < 1 \<and> n_height node < 1)"
    by (simp add: excluded_def)
  show "findAll_filter node \<longleftrightarrow> \<not> excluded node"
    by (rule findAll_filter_iff)
  show "analyzeFrame_pass h frame ds = analyzeFrame_pass h frame (filter (\<lambda>n. \<not> excluded n) ds)"
    by (rule analyzeFrame_pass_excluded)
next
  assume "node \<in> set ds \<and> distinct (map n_id ds) \<and> rt_id frame \<notin> n_id ` set ds
        \<and> n_type node \<noteq> [] \<and> n_removed node = False
        \<and> \<not> excluded node \<and> \<not> broken_instance node"
  then show "contributed h node (analyzeFrame_pass h frame ds)"
    by (intro analyzeFrame_pass_contributed) simp_all
qed

text \<open>
  The theorem on a frame with two rectangles below it, both with a red fill: the one of
  100 by 50 is processed, and its colour \<open>#FF0000\<close> is in the colours after
  \<open>analyzeNode\<close> and at the end of the pass; the one of 0.75 by 0.75 is excluded and leaves
  the collections as they were.
\<close>

theorem analyzeNode_gate_witness:
  "fresh (sample_rect ''1:2'' 100 50 [solid_paint 1 0 0 None]) empty_pass
   \<and> \<not> excluded (sample_rect ''1:2'' 100 50 [solid_paint 1 0 0 None])
   \<and> \<not> broken_instance (sample_rect ''1:2'' 100 50 [solid_paint 1 0 0 None])
   \<and> map_has (m_colors (analyzeNode (sample_host []) (sample_rect ''1:2'' 100 50 [solid_paint 1 0 0 None])
        empty_pass)) ''#FF0000''
   \<and> map_has (m_colors (analyzeFrame_pass (sample_host []) (sample_frame ''0:1'' [])
        [sample_rect ''1:2'' 100 50 [solid_paint 1 0 0 None],
         sample_rect ''1:3'' (3 / 4) (3 / 4) [solid_paint 1 0 0 None]])) ''#FF0000''
   \<and> fresh (sample_rect ''1:3'' (3 / 4) (3 / 4) [solid_paint 1 0 0 None]) empty_pass
   \<and> excluded (sample_rect ''1:3'' (3 / 4) (3 / 4) [solid_paint 1 0 0 None])
   \<and> collections (analyzeNode (sample_host []) (sample_rect ''1:3'' (3 / 4) (3 / 4) [solid_paint 1 0 0 None])
         empty_pass) = collections empty_pass"
proof -
  let ?h = "sample_host []"
  let ?big = "sample_rect ''1:2'' 100 50 [solid_paint 1 0 0 None]"
  let ?tiny = "sample_rect ''1:3'' (3 / 4) (3 / 4) [solid_paint 1 0 0 None]"
  let ?frame = "sample_frame ''0:1'' []"
  have a: "\<not> excluded ?big" by (simp add: excluded_def sample_rect_def)
  have b: "excluded ?tiny" by (simp add: excluded_def sample_rect_def)
  have c: "\<not> broken_instance ?big" by (simp add: broken_instance_def sample_rect_def)
  have k: "colorKey_of ?h (rgbToHex (host_fl ?h) 1 0 0) 1 = ''#FF0000''"
    by (simp add: colorKey_full sample_host_def sample_red)
  have red: "contributed ?h ?big s \<Longrightarrow> map_has (m_colors s) ''#FF0000''" for s
    using k by (simp add: contributed_def holds_paints_def holds_paint_def sample_rect_def
        solid_paint_def paint_counts_def)
  note t1 = analyzeNode_gate[of ?big empty_pass ?h ?frame "[?big, ?tiny]"]
  note t2 = analyzeNode_gate[of ?tiny empty_pass ?h ?frame "[]"]
  have n: "contributed ?h ?big (analyzeNode ?h ?big empty_pass)"
    using t1 a c sample_rect_fresh[of "''1:2''" 100 50 "[solid_paint 1 0 0 None]"] by blast
  have d: "?big \<in> set [?big, ?tiny] \<and> distinct (map n_id [?big, ?tiny])
        \<and> rt_id ?frame \<notin> n_id ` set [?big, ?tiny]
        \<and> n_type ?big \<noteq> [] \<and> n_removed ?big = False"
    by (simp add: sample_rect_def sample_frame_def)
  have p: "contributed ?h ?big (analyzeFrame_pass ?h ?frame [?big, ?tiny])"
    using t1 a c d by blast
  have x: "collections (analyzeNode ?h ?tiny empty_pass) = collections empty_pass"
    using t2 b sample_rect_fresh[of "''1:3''" "3 / 4" "3 / 4" "[solid_paint 1 0 0 None]"] by blast
  show ?thesis
    by (intro conjI sample_rect_fresh a b c red[OF n] red[OF p] x)
qed


text \<open>
  Claim C6 as stated excludes a visible node only when its width and height both round to
  less than 1, and has every other node processed. A visible 0.75 by 0.75 rectangle with a
  red fill rounds to 1 by 1, yet it is excluded: \<open>analyzeNode\<close> leaves the collections
  empty, and so does the pass over a frame with this rectangle below it, although the
  extraction of the rectangle would have recorded a colour.
\<close>

theorem analyzeNode_gate_rounding_counterexample:
  "fresh (sample_rect ''1:3'' (3 / 4) (3 / 4) [solid_paint 1 0 0 None]) empty_pass
   \<and> \<not> excluded_rounding (sample_rect ''1:3'' (3 / 4) (3 / 4) [solid_paint 1 0 0 None])
   \<and> collections (analyzeNode (sample_host []) (sample_rect ''1:3'' (3 / 4) (3 / 4) [solid_paint 1 0 0 None])
         empty_pass) = collections empty_pass
   \<and> collections (analyzeFrame_pass (sample_host []) (sample_frame ''0:1'' [])
         [sample_rect ''1:3'' (3 / 4) (3 / 4) [solid_paint 1 0 0 None]]) = collections empty_pass
   \<and> m_colors (extract_node (sample_host []) (sample_rect ''1:3'' (3 / 4) (3 / 4) [solid_paint 1 0 0 None])
         empty_pass) \<noteq> []"
proof -
  have r: "round (3 / 4 :: rat) = 1" by code_simp
  have nr: "\<not> excluded_rounding (sample_rect ''1:3'' (3 / 4) (3 / 4) [solid_paint 1 0 0 None])"
    by (simp add: excluded_rounding_def sample_rect_def r)
  have ex: "collections (analyzeNode (sample_host []) (sample_rect ''1:3'' (3 / 4) (3 / 4) [solid_paint 1 0 0 None])
         empty_pass) = collections empty_pass"
    by (simp add: analyzeNode_def sample_rect_def empty_pass_def collections_def set_add_def)
  have nf: "\<not> findAll_filter (sample_rect ''1:3'' (3 / 4) (3 / 4) [solid_paint 1 0 0 None])"
    by (simp add: findAll_filter_def sample_rect_def)
  have pa: "collections (analyzeFrame_pass (sample_host []) (sample_frame ''0:1'' [])
         [sample_rect ''1:3'' (3 / 4) (3 / 4) [solid_paint 1 0 0 None]]) = collections empty_pass"
    by (simp add: analyzeFrame_pass_def nf analyzeNode_root_collections)
  have co: "m_colors (extract_node (sample_host []) (sample_rect ''1:3'' (3 / 4) (3 / 4) [solid_paint 1 0 0 None])
         empty_pass) \<noteq> []"
    by (simp add: extract_node_def instance_step_def font_step_def fills_step_def strokes_step_def
        effect_step_def paint_step_def paint_counts_def upsert_color_def map_has_def map_set_def
        resolve_style_def sample_rect_def solid_paint_def empty_pass_def sample_host_def Let_def)
  show ?thesis by (intro conjI sample_rect_fresh nr ex pa co)
qed

end
